theory Spec2Isabelle
  imports
    Complex_Main
    "HOL-Library.Word"
    "HOL-Library.Char_ord"
    "HOL-Library.List_Lexorder"
    "HOL-Library.Multiset"
begin

unbundle bit_operations_syntax

section \<open>Strings\<close>

text \<open>
  A Go \<^verbatim>\<open>string\<close> is a sequence of bytes: \<^verbatim>\<open>len(s)\<close> counts bytes and
  \<^verbatim>\<open>s[i]\<close> is a byte.  It is modelled as \<^typ>\<open>string\<close>, a list of 8-bit
  \<^typ>\<open>char\<close>s.  Go compares strings bytewise and lexicographically, which is the order
  that \<^verbatim>\<open>Char_ord\<close> and \<^verbatim>\<open>List_Lexorder\<close> put on \<^typ>\<open>string\<close>.
\<close>

text \<open>\<^verbatim>\<open>strings.HasPrefix(s, prefix)\<close>.\<close>

definition HasPrefix :: "string \<Rightarrow> string \<Rightarrow> bool" where
  "HasPrefix s p = (length p \<le> length s \<and> take (length p) s = p)"

text \<open>\<^verbatim>\<open>strings.TrimPrefix(s, prefix)\<close>.\<close>

definition TrimPrefix :: "string \<Rightarrow> string \<Rightarrow> string" where
  "TrimPrefix s p = (if HasPrefix s p then drop (length p) s else s)"

subsection \<open>UTF-8, as package \<^verbatim>\<open>unicode/utf8\<close> reads and writes it\<close>

text \<open>
  A code point (Go's \<^verbatim>\<open>rune\<close>) is a natural number.  \<^verbatim>\<open>utf8.RuneError\<close> is U+FFFD.
\<close>

definition RuneError :: nat where
  "RuneError = 0xFFFD"

text \<open>A continuation byte lies between 80 and BF.\<close>

definition cont :: "char \<Rightarrow> bool" where
  "cont b = (0x80 \<le> (of_char b :: nat) \<and> (of_char b :: nat) \<le> 0xBF)"

text \<open>
  The range accepted for the second byte after the first byte \<open>x\<close>: narrower after E0, ED,
  F0 and F4, which excludes overlong forms, surrogates and code points above U+10FFFF.
\<close>

definition second_ok :: "nat \<Rightarrow> char \<Rightarrow> bool" where
  "second_ok x b =
     ((if x = 0xE0 then 0xA0 else if x = 0xF0 then 0x90 else 0x80) \<le> (of_char b :: nat)
      \<and> (of_char b :: nat) \<le> (if x = 0xED then 0x9F else if x = 0xF4 then 0x8F else 0xBF))"

text \<open>
  \<^verbatim>\<open>utf8.DecodeRuneInString\<close>: the first code point of a string and the number of bytes
  it takes.  A byte that starts no valid encoding is \<^verbatim>\<open>RuneError\<close> of width 1.
\<close>

fun DecodeRune :: "string \<Rightarrow> nat \<times> nat" where
  "DecodeRune [] = (RuneError, 0)"
| "DecodeRune (p0 # t) =
     (let x = of_char p0 :: nat in
      if x < 0x80 then (x, 1)
      else if x < 0xC2 then (RuneError, 1)
      else if x < 0xE0 then
        (case t of
           b1 # _ \<Rightarrow>
             if second_ok x b1 then ((x mod 32) * 64 + of_char b1 mod 64, 2)
             else (RuneError, 1)
         | _ \<Rightarrow> (RuneError, 1))
      else if x < 0xF0 then
        (case t of
           b1 # b2 # _ \<Rightarrow>
             if second_ok x b1 \<and> cont b2
             then ((x mod 16) * 4096 + (of_char b1 mod 64) * 64 + of_char b2 mod 64, 3)
             else (RuneError, 1)
         | _ \<Rightarrow> (RuneError, 1))
      else if x < 0xF5 then
        (case t of
           b1 # b2 # b3 # _ \<Rightarrow>
             if second_ok x b1 \<and> cont b2 \<and> cont b3
             then ((x mod 8) * 262144 + (of_char b1 mod 64) * 4096
                     + (of_char b2 mod 64) * 64 + of_char b3 mod 64, 4)
             else (RuneError, 1)
         | _ \<Rightarrow> (RuneError, 1))
      else (RuneError, 1))"

text \<open>
  The code points that \<^verbatim>\<open>for _, c := range s\<close> yields: decode, step over the width,
  repeat.  The width of a code point of a non-empty string is at least 1.
\<close>

function runes :: "string \<Rightarrow> nat list" where
  "runes [] = []"
| "runes (p0 # t) = (case DecodeRune (p0 # t) of (r, w) \<Rightarrow> r # runes (drop (w - 1) t))"
  by pat_completeness auto
termination
  by (relation "measure length") auto

text \<open>
  \<^verbatim>\<open>utf8.AppendRune\<close>: the encoding of a code point; a surrogate or a value above
  U+10FFFF is written as \<^verbatim>\<open>RuneError\<close>.
\<close>

definition EncodeRune :: "nat \<Rightarrow> string" where
  "EncodeRune r =
     (if r \<le> 0x7F then [char_of r]
      else if r \<le> 0x7FF then [char_of (0xC0 + r div 64), char_of (0x80 + r mod 64)]
      else if r > 0x10FFFF \<or> (0xD800 \<le> r \<and> r \<le> 0xDFFF)
        then [CHR 0xEF, CHR 0xBF, CHR 0xBD]
      else if r \<le> 0xFFFF
        then [char_of (0xE0 + r div 4096), char_of (0x80 + r div 64 mod 64),
              char_of (0x80 + r mod 64)]
      else [char_of (0xF0 + r div 262144), char_of (0x80 + r div 4096 mod 64),
            char_of (0x80 + r div 64 mod 64), char_of (0x80 + r mod 64)])"

subsection \<open>\<^verbatim>\<open>strings.ToLower\<close>\<close>

text \<open>
  \<^verbatim>\<open>unicode.ToLower\<close>: on ASCII the letters \<^verbatim>\<open>A\<close> to \<^verbatim>\<open>Z\<close> move by 32; above
  ASCII the result is read from the case tables of package \<^verbatim>\<open>unicode\<close>, which are
  the parameter \<open>table\<close> (the lower case of a code point above 7F).
\<close>

definition unicode_ToLower :: "(nat \<Rightarrow> nat) \<Rightarrow> nat \<Rightarrow> nat" where
  "unicode_ToLower table r =
     (if r \<le> 0x7F then (if 0x41 \<le> r \<and> r \<le> 0x5A then r + 32 else r)
      else table r)"

text \<open>
  \<^verbatim>\<open>strings.Map\<close>, for a mapping that yields no negative value: every code point of
  the string is mapped and written in UTF-8.  A byte that is not valid UTF-8 is read as
  \<^verbatim>\<open>RuneError\<close>, so it is rewritten.
\<close>

definition Map_runes :: "(nat \<Rightarrow> nat) \<Rightarrow> string \<Rightarrow> string" where
  "Map_runes mapping s = concat (map (\<lambda>c. EncodeRune (mapping c)) (runes s))"

text \<open>
  The byte loop of \<^verbatim>\<open>strings.ToLower\<close> for a string of ASCII bytes only:
  \<^verbatim>\<open>c += 'a' - 'A'\<close> for the bytes 65 to 90, which sets bit 5.
\<close>

fun lower_ascii :: "char \<Rightarrow> char" where
  "lower_ascii (Char b0 b1 b2 b3 b4 b5 b6 b7) =
     (let n = of_char (Char b0 b1 b2 b3 b4 b5 b6 b7) :: nat
      in if 65 \<le> n \<and> n \<le> 90 then Char b0 b1 b2 b3 b4 True b6 b7
         else Char b0 b1 b2 b3 b4 b5 b6 b7)"

text \<open>
  \<^verbatim>\<open>strings.ToLower\<close>: the byte loop when every byte is below 80, otherwise
  \<^verbatim>\<open>strings.Map(unicode.ToLower, s)\<close>.
\<close>

definition ToLower :: "(nat \<Rightarrow> nat) \<Rightarrow> string \<Rightarrow> string" where
  "ToLower table s =
     (if \<forall>c \<in> set s. (of_char c :: nat) < 0x80 then map lower_ascii s
      else Map_runes (unicode_ToLower table) s)"

subsection \<open>Conversions and formatting\<close>

text \<open>
  The conversion \<^verbatim>\<open>string(b)\<close> of a byte \<^verbatim>\<open>b\<close>: Go reads the byte as a code point
  and yields the UTF-8 encoding of that code point.  Below 128 that is the byte itself; a
  byte \<^verbatim>\<open>b\<close> from 128 on becomes the two bytes \<^verbatim>\<open>0xC0 | b>>6\<close> and
  \<^verbatim>\<open>0x80 | b&0x3F\<close>.
\<close>

fun string_of_byte :: "char \<Rightarrow> string" where
  "string_of_byte (Char b0 b1 b2 b3 b4 b5 b6 b7) =
     (if \<not> b7 then [Char b0 b1 b2 b3 b4 b5 b6 b7]
      else [Char b6 b7 False False False False True True,
            Char b0 b1 b2 b3 b4 b5 False True])"

text \<open>The decimal digits of a natural number, and \<^verbatim>\<open>%d\<close> and \<^verbatim>\<open>%8d\<close> of \<^verbatim>\<open>fmt\<close>.\<close>

function digits :: "nat \<Rightarrow> string" where
  "digits n =
     (if n < 10 then [''0123456789'' ! n]
      else digits (n div 10) @ [''0123456789'' ! (n mod 10)])"
  by pat_completeness auto
termination
  by (relation "measure (\<lambda>n. n)") auto

declare digits.simps [simp del]

definition fmt_d :: "int \<Rightarrow> string" where
  "fmt_d k = (if k < 0 then ''-'' @ digits (nat (- k)) else digits (nat k))"

definition fmt_8d :: "int \<Rightarrow> string" where
  "fmt_8d k = replicate (8 - length (fmt_d k)) (CHR '' '') @ fmt_d k"

definition newline :: string where
  "newline = [CHR 0x0A]"


section \<open>Flag Normalizer: \<^verbatim>\<open>expandCombinedFlags\<close>\<close>

text \<open>
  The inner loop \<^verbatim>\<open>for i := 1; i < len(a); i++ { out = append(out, "-"+string(a[i])) }\<close>,
  started at index \<open>i\<close>.
\<close>

function split_loop :: "string \<Rightarrow> nat \<Rightarrow> string list \<Rightarrow> string list" where
  "split_loop a i out =
     (if i < length a
      then split_loop a (i + 1) (out @ [''-'' @ string_of_byte (a ! i)])
      else out)"
  by pat_completeness auto
termination
  by (relation "measure (\<lambda>(a, i, out). length a - i)") auto

declare split_loop.simps [simp del]

text \<open>The outer loop \<^verbatim>\<open>for _, a := range args\<close> with the slice \<^verbatim>\<open>out\<close> built so far.\<close>

fun expand_loop :: "string list \<Rightarrow> string list \<Rightarrow> string list" where
  "expand_loop [] out = out"
| "expand_loop (a # args) out =
     (if \<not> HasPrefix a ''-'' \<or> HasPrefix a ''--'' \<or> length a = 2
      then expand_loop args (out @ [a])
      else expand_loop args (split_loop a 1 out))"

definition expandCombinedFlags :: "string list \<Rightarrow> string list" where
  "expandCombinedFlags args = expand_loop args []"


section \<open>The standard flag parser, for the two boolean flags of \<^verbatim>\<open>main\<close>\<close>

text \<open>
  \<^verbatim>\<open>main\<close> registers the boolean flags \<^verbatim>\<open>l\<close> and \<^verbatim>\<open>a\<close> and calls
  \<^verbatim>\<open>flag.Parse()\<close> of Go's standard library, whose command-line flag set has the error
  handling \<^verbatim>\<open>ExitOnError\<close>.  The parser is modelled after the library's
  \<^verbatim>\<open>FlagSet.parseOne\<close> and \<^verbatim>\<open>FlagSet.Parse\<close>: it reads arguments from the left
  until the first one that is not a flag or until \<^verbatim>\<open>--\<close>; an undefined flag, a
  malformed flag or a bad boolean value ends the process with status 2, and an undefined
  \<^verbatim>\<open>-h\<close> or \<^verbatim>\<open>-help\<close> ends it with status 0.
\<close>

datatype flag_error =
    ErrHelp
  | BadSyntax string
  | NotDefined string
  | InvalidBool string string

record flag_values =
  longFlag :: bool
  allFlag :: bool

text \<open>\<^verbatim>\<open>strconv.ParseBool\<close>, which the boolean flag uses for \<^verbatim>\<open>-name=value\<close>.\<close>

definition ParseBool :: "string \<Rightarrow> bool option" where
  "ParseBool v =
     (if v \<in> set [''1'', ''t'', ''T'', ''TRUE'', ''true'', ''True''] then Some True
      else if v \<in> set [''0'', ''f'', ''F'', ''FALSE'', ''false'', ''False''] then Some False
      else None)"

text \<open>
  The search \<^verbatim>\<open>for i := 1; i < len(name); i++ { if name[i] == '=' ... }\<close> for the
  first equals sign that is not the first byte of the name.
\<close>

function find_equals :: "string \<Rightarrow> nat \<Rightarrow> nat option" where
  "find_equals name i =
     (if i < length name
      then (if name ! i = CHR ''='' then Some i else find_equals name (i + 1))
      else None)"
  by pat_completeness auto
termination
  by (relation "measure (\<lambda>(name, i). length name - i)") auto

declare find_equals.simps [simp del]

datatype parse_step =
    NotFlag
  | Terminator
  | Failed flag_error
  | Seen flag_values

definition set_flag :: "flag_values \<Rightarrow> string \<Rightarrow> bool \<Rightarrow> flag_values" where
  "set_flag fs name b = (if name = ''l'' then fs\<lparr>longFlag := b\<rparr> else fs\<lparr>allFlag := b\<rparr>)"

definition parseOne :: "flag_values \<Rightarrow> string \<Rightarrow> parse_step" where
  "parseOne fs s =
     (if length s < 2 \<or> s ! 0 \<noteq> CHR ''-'' then NotFlag
      else if s ! 1 = CHR ''-'' \<and> length s = 2 then Terminator
      else
        let name = (if s ! 1 = CHR ''-'' then drop 2 s else drop 1 s) in
        if length name = 0 \<or> name ! 0 = CHR ''-'' \<or> name ! 0 = CHR ''=''
        then Failed (BadSyntax s)
        else
          let eq = find_equals name 1;
              name' = (case eq of None \<Rightarrow> name | Some i \<Rightarrow> take i name)
          in if name' \<noteq> ''l'' \<and> name' \<noteq> ''a''
             then (if name' = ''help'' \<or> name' = ''h'' then Failed ErrHelp
                   else Failed (NotDefined name'))
             else (case eq of
                     None \<Rightarrow> Seen (set_flag fs name' True)
                   | Some i \<Rightarrow>
                       (case ParseBool (drop (i + 1) name) of
                          None \<Rightarrow> Failed (InvalidBool (drop (i + 1) name) name')
                        | Some b \<Rightarrow> Seen (set_flag fs name' b))))"

text \<open>
  \<^verbatim>\<open>flag.Parse\<close>: the loop over \<^verbatim>\<open>parseOne\<close>.  The result is the error that ends
  the process, or the flag values with the remaining arguments (\<^verbatim>\<open>flag.Args()\<close>).
\<close>

fun flag_Parse :: "flag_values \<Rightarrow> string list \<Rightarrow> flag_error + flag_values \<times> string list" where
  "flag_Parse fs [] = Inr (fs, [])"
| "flag_Parse fs (s # args) =
     (case parseOne fs s of
        NotFlag \<Rightarrow> Inr (fs, s # args)
      | Terminator \<Rightarrow> Inr (fs, args)
      | Failed e \<Rightarrow> Inl e
      | Seen fs' \<Rightarrow> flag_Parse fs' args)"


section \<open>The operating system seen by \<^verbatim>\<open>main\<close>\<close>

text \<open>
  An error value is represented by its text (\<^verbatim>\<open>err.Error()\<close>).  Of an
  \<^verbatim>\<open>os.FileInfo\<close> the program reads \<^verbatim>\<open>IsDir()\<close>, \<^verbatim>\<open>Mode().String()\<close>,
  \<^verbatim>\<open>Size()\<close> and \<^verbatim>\<open>ModTime().Format("Jan _2 15:04")\<close>.
\<close>

datatype error = Error (message: string)

record FileInfo =
  IsDir :: bool
  Mode_String :: string
  Size :: int
  ModTime_Format :: string

text \<open>
  The calls that leave the program are parameters: \<^verbatim>\<open>os.ReadDir\<close> (the names of the
  entries it returns), \<^verbatim>\<open>os.Stat\<close>, \<^verbatim>\<open>windows.GetFileAttributes\<close>,
  \<^verbatim>\<open>term.GetSize\<close> on standard output (width and height),
  \<^verbatim>\<open>filepath.Join\<close>, and the lower-case table of package \<^verbatim>\<open>unicode\<close> for
  the code points above ASCII.
\<close>

record os_env =
  ReadDir :: "string \<Rightarrow> error + string list"
  Stat :: "string \<Rightarrow> error + FileInfo"
  GetFileAttributes :: "string \<Rightarrow> error + 32 word"
  GetSize :: "error + int \<times> int"
  Join :: "string \<Rightarrow> string \<Rightarrow> string"
  To_LowerCase :: "nat \<Rightarrow> nat"

definition FILE_ATTRIBUTE_HIDDEN :: "32 word" where
  "FILE_ATTRIBUTE_HIDDEN = 0x2"

text \<open>\<^verbatim>\<open>windows.UTF16PtrFromString\<close> refuses a string that contains a NUL byte.\<close>

definition UTF16PtrFromString :: "string \<Rightarrow> error + string" where
  "UTF16PtrFromString s =
     (if CHR 0x00 \<in> set s then Inl (Error ''invalid argument'') else Inr s)"

definition isHidden :: "os_env \<Rightarrow> string \<Rightarrow> bool" where
  "isHidden env path =
     (case UTF16PtrFromString path of
        Inl err \<Rightarrow> False
      | Inr p \<Rightarrow>
          (case GetFileAttributes env p of
             Inl err \<Rightarrow> False
           | Inr attrs \<Rightarrow> attrs AND FILE_ATTRIBUTE_HIDDEN \<noteq> 0))"


section \<open>Entry Collector\<close>

text \<open>The loop over the directory entries (lines 62 to 76), with \<^verbatim>\<open>names\<close> built so far.\<close>

fun collect_loop :: "os_env \<Rightarrow> string \<Rightarrow> bool \<Rightarrow> string list \<Rightarrow> string list \<Rightarrow> string list" where
  "collect_loop env dir all [] names = names"
| "collect_loop env dir all (name # entries) names =
     (if \<not> all then
        (if HasPrefix name ''.'' then collect_loop env dir all entries names
         else if isHidden env (Join env dir name) then collect_loop env dir all entries names
         else collect_loop env dir all entries (names @ [name]))
      else collect_loop env dir all entries (names @ [name]))"

text \<open>The loop that looks for \<^verbatim>\<open>.\<close> and \<^verbatim>\<open>..\<close> among the names (lines 80 to 89).\<close>

fun dots_loop :: "string list \<Rightarrow> bool \<times> bool \<Rightarrow> bool \<times> bool" where
  "dots_loop [] (hasDot, hasDotDot) = (hasDot, hasDotDot)"
| "dots_loop (n # ns) (hasDot, hasDotDot) =
     dots_loop ns (if n = ''.'' then True else hasDot, if n = ''..'' then True else hasDotDot)"

definition add_dots :: "bool \<Rightarrow> string list \<Rightarrow> string list" where
  "add_dots all names =
     (if all then
        (case dots_loop names (False, False) of
           (hasDot, hasDotDot) \<Rightarrow>
             (let names1 = (if \<not> hasDot then names @ [''.''] else names);
                  names2 = (if \<not> hasDotDot then names1 @ [''..''] else names1)
              in names2))
      else names)"

text \<open>Lines 62 to 98: filter, add the two synthetic names, \<^verbatim>\<open>sort.Strings\<close>.\<close>

definition collect_names :: "os_env \<Rightarrow> string \<Rightarrow> bool \<Rightarrow> string list \<Rightarrow> string list" where
  "collect_names env dir all entries = sort (add_dots all (collect_loop env dir all entries []))"


section \<open>Classifier and decoration: \<^verbatim>\<open>colorName\<close>\<close>

definition isExecutable :: "string \<Rightarrow> bool" where
  "isExecutable ext = (ext \<in> set [''exe'', ''bat'', ''cmd'', ''com'', ''ps1''])"

definition isArchive :: "string \<Rightarrow> bool" where
  "isArchive ext = (ext \<in> set [''zip'', ''tar'', ''gz'', ''tgz'', ''7z'', ''rar''])"

definition isImageOrVideo :: "string \<Rightarrow> bool" where
  "isImageOrVideo ext =
     (ext \<in> set [''jpg'', ''jpeg'', ''png'', ''gif'', ''bmp'', ''webp'',
                 ''mp4'', ''mkv'', ''mov'', ''avi''])"

definition isAudio :: "string \<Rightarrow> bool" where
  "isAudio ext = (ext \<in> set [''mp3'', ''wav'', ''flac'', ''aac'', ''ogg''])"

text \<open>\<^verbatim>\<open>fmt.Sprintf("\x1b[%dm%s\x1b[0m", code, s)\<close>.\<close>

definition colorWrap :: "int \<Rightarrow> string \<Rightarrow> string" where
  "colorWrap code s = [CHR 0x1B] @ ''['' @ fmt_d code @ ''m'' @ s @ [CHR 0x1B] @ ''[0m''"

definition blue :: "string \<Rightarrow> string" where "blue s = colorWrap 34 s"
definition green :: "string \<Rightarrow> string" where "green s = colorWrap 32 s"
definition red :: "string \<Rightarrow> string" where "red s = colorWrap 31 s"
definition magenta :: "string \<Rightarrow> string" where "magenta s = colorWrap 35 s"
definition cyan :: "string \<Rightarrow> string" where "cyan s = colorWrap 36 s"

text \<open>
  \<^verbatim>\<open>filepath.Ext\<close> on Windows: scan from the last byte towards the first, stop at a
  path separator, return the suffix that starts at the first dot met.  The second argument
  is the number of bytes not yet scanned.
\<close>

definition IsPathSeparator :: "char \<Rightarrow> bool" where
  "IsPathSeparator c = (c = CHR 0x5C \<or> c = CHR ''/'')"

fun Ext_loop :: "string \<Rightarrow> nat \<Rightarrow> string" where
  "Ext_loop path 0 = []"
| "Ext_loop path (Suc i) =
     (if IsPathSeparator (path ! i) then []
      else if path ! i = CHR ''.'' then drop i path
      else Ext_loop path i)"

definition Ext :: "string \<Rightarrow> string" where
  "Ext path = Ext_loop path (length path)"

text \<open>The file information is \<open>None\<close> where the source has \<^verbatim>\<open>fi == nil\<close>.\<close>

definition colorName :: "os_env \<Rightarrow> string \<Rightarrow> string \<Rightarrow> FileInfo option \<Rightarrow> string" where
  "colorName env name path fi =
     (case fi of
        None \<Rightarrow> name
      | Some info \<Rightarrow>
          if IsDir info then blue name
          else
            let ext = ToLower (To_LowerCase env) (TrimPrefix (Ext name) ''.'') in
            if isExecutable ext then green name
            else if isArchive ext then red name
            else if isImageOrVideo ext then magenta name
            else if isAudio ext then cyan name
            else name)"


section \<open>Layout Engine\<close>

text \<open>
  The output of a run: the writes to standard output and to standard error, one list
  element for each call of a print function, and the exit status.
\<close>

record run =
  stdout :: "string list"
  stderr :: "string list"
  exit_code :: nat

subsection \<open>Long mode (lines 107 to 121)\<close>

definition long_line :: "os_env \<Rightarrow> string \<Rightarrow> string \<Rightarrow> FileInfo \<Rightarrow> string" where
  "long_line env name path fi =
     Mode_String fi @ '' '' @ fmt_8d (Size fi) @ '' '' @ ModTime_Format fi @ '' ''
       @ colorName env name path (Some fi) @ newline"

definition error_line :: "error \<Rightarrow> string" where
  "error_line err = ''error: '' @ message err @ newline"

fun long_loop :: "os_env \<Rightarrow> string \<Rightarrow> string list \<Rightarrow> string list \<times> string list
    \<Rightarrow> string list \<times> string list" where
  "long_loop env dir [] (out, err) = (out, err)"
| "long_loop env dir (name # names) (out, err) =
     (let path = Join env dir name in
      case Stat env path of
        Inl e \<Rightarrow> long_loop env dir names (out, err @ [error_line e])
      | Inr fi \<Rightarrow> long_loop env dir names (out @ [long_line env name path fi], err))"

subsection \<open>Grid mode (lines 123 to 163)\<close>

fun maxLen_loop :: "string list \<Rightarrow> nat \<Rightarrow> nat" where
  "maxLen_loop [] maxLen = maxLen"
| "maxLen_loop (n # ns) maxLen =
     maxLen_loop ns (if length n > maxLen then length n else maxLen)"

text \<open>
  All quantities of the layout are lengths and counts; they are natural numbers here, on
  which Go's integer division is \<open>div\<close>.
\<close>

definition grid_colWidth :: "string list \<Rightarrow> nat" where
  "grid_colWidth names = maxLen_loop names 0 + 2"

definition grid_cols :: "string list \<Rightarrow> nat \<Rightarrow> nat" where
  "grid_cols names width =
     (let cols = width div grid_colWidth names in if cols < 1 then 1 else cols)"

definition grid_rows :: "string list \<Rightarrow> nat \<Rightarrow> nat" where
  "grid_rows names width =
     (length names + grid_cols names width - 1) div grid_cols names width"

text \<open>
  A printed cell: the name it holds and what the loop body writes for it, the decorated
  name and, where the cell is padded, the spaces.
\<close>

record cell =
  cell_name :: string
  cell_writes :: "string list"

text \<open>
  \<^verbatim>\<open>fi, _ := os.Stat(path)\<close>: the error is dropped, and the file information is
  \<^verbatim>\<open>nil\<close> when the call fails.
\<close>

definition Stat_info :: "os_env \<Rightarrow> string \<Rightarrow> FileInfo option" where
  "Stat_info env path = (case Stat env path of Inl err \<Rightarrow> None | Inr info \<Rightarrow> Some info)"

text \<open>The body of the inner loop at row \<open>r\<close> and column \<open>c\<close>; \<open>None\<close> is \<^verbatim>\<open>continue\<close>.\<close>

definition grid_cell :: "os_env \<Rightarrow> string \<Rightarrow> string list \<Rightarrow> nat \<Rightarrow> nat \<Rightarrow> nat \<Rightarrow> nat \<Rightarrow> nat
    \<Rightarrow> cell option" where
  "grid_cell env dir names colWidth cols rows r c =
     (let idx = c * rows + r in
      if idx \<ge> length names then None
      else
        let name = names ! idx;
            path = Join env dir name;
            fi = Stat_info env path
        in if c = cols - 1 \<or> c * rows + r + rows \<ge> length names
           then Some \<lparr>cell_name = name, cell_writes = [colorName env name path fi]\<rparr>
           else
             let padded = (if colWidth < length name then 0 else colWidth - length name)
             in Some \<lparr>cell_name = name,
                      cell_writes = [colorName env name path fi, replicate padded (CHR '' '')]\<rparr>)"

function col_loop :: "os_env \<Rightarrow> string \<Rightarrow> string list \<Rightarrow> nat \<Rightarrow> nat \<Rightarrow> nat \<Rightarrow> nat \<Rightarrow> nat
    \<Rightarrow> cell list" where
  "col_loop env dir names colWidth cols rows r c =
     (if c < cols then
        (case grid_cell env dir names colWidth cols rows r c of
           None \<Rightarrow> col_loop env dir names colWidth cols rows r (c + 1)
         | Some x \<Rightarrow> x # col_loop env dir names colWidth cols rows r (c + 1))
      else [])"
  by pat_completeness auto
termination
  by (relation "measure (\<lambda>(env, dir, names, colWidth, cols, rows, r, c). cols - c)") auto

declare col_loop.simps [simp del]

function row_loop :: "os_env \<Rightarrow> string \<Rightarrow> string list \<Rightarrow> nat \<Rightarrow> nat \<Rightarrow> nat \<Rightarrow> nat
    \<Rightarrow> cell list list" where
  "row_loop env dir names colWidth cols rows r =
     (if r < rows then
        col_loop env dir names colWidth cols rows r 0
          # row_loop env dir names colWidth cols rows (r + 1)
      else [])"
  by pat_completeness auto
termination
  by (relation "measure (\<lambda>(env, dir, names, colWidth, cols, rows, r). rows - r)") auto

declare row_loop.simps [simp del]

text \<open>The rows of cells that grid mode prints; none when \<^verbatim>\<open>maxLen == 0\<close>.\<close>

definition grid :: "os_env \<Rightarrow> string \<Rightarrow> string list \<Rightarrow> nat \<Rightarrow> cell list list" where
  "grid env dir names width =
     (if maxLen_loop names 0 = 0 then []
      else row_loop env dir names (grid_colWidth names) (grid_cols names width)
             (grid_rows names width) 0)"

text \<open>The writes of a row: those of its cells, then the \<^verbatim>\<open>fmt.Println()\<close>.\<close>

definition row_writes :: "cell list \<Rightarrow> string list" where
  "row_writes row = concat (map cell_writes row) @ [newline]"

definition grid_writes :: "cell list list \<Rightarrow> string list" where
  "grid_writes rows = concat (map row_writes rows)"


section \<open>\<^verbatim>\<open>main\<close>\<close>

text \<open>
  The width used for the layout (lines 101 to 104): 80 unless the terminal reports a
  positive width.
\<close>

definition terminal_width :: "os_env \<Rightarrow> nat" where
  "terminal_width env =
     (case GetSize env of
        Inl err \<Rightarrow> 80
      | Inr (w, h) \<Rightarrow> if w > 0 then nat w else 80)"

text \<open>
  A run ends inside \<^verbatim>\<open>flag.Parse\<close> (the flag package reports on standard error and
  calls \<^verbatim>\<open>os.Exit\<close>; the text of that report is not modelled), or it ends in
  \<^verbatim>\<open>main\<close> with the output written so far.  \<^verbatim>\<open>enableANSI\<close> changes the console
  mode only and its result is discarded; it has no part in the output.
\<close>

datatype outcome =
    ExitInFlagParse flag_error
  | Completed run

text \<open>\<^verbatim>\<open>main\<close>, given the environment and the arguments after the program name.\<close>

definition main :: "os_env \<Rightarrow> string list \<Rightarrow> outcome" where
  "main env args =
     (case flag_Parse \<lparr>longFlag = False, allFlag = False\<rparr>
             (if length args > 0 then expandCombinedFlags args else args) of
        Inl e \<Rightarrow> ExitInFlagParse e
      | Inr (fs, rest) \<Rightarrow>
          let dir = (if length rest > 0 then rest ! 0 else ''.'') in
          (case ReadDir env dir of
             Inl err \<Rightarrow> Completed \<lparr>stdout = [], stderr = [error_line err], exit_code = 1\<rparr>
           | Inr entries \<Rightarrow>
               let names = collect_names env dir (allFlag fs) entries;
                   width = terminal_width env
               in if longFlag fs then
                    (case long_loop env dir names ([], []) of
                       (out, err) \<Rightarrow> Completed \<lparr>stdout = out, stderr = err, exit_code = 0\<rparr>)
                  else
                    Completed \<lparr>stdout = grid_writes (grid env dir names width),
                               stderr = [], exit_code = 0\<rparr>))"

text \<open>The exit status of the process.\<close>

fun exit_status :: "outcome \<Rightarrow> nat" where
  "exit_status (ExitInFlagParse e) = (if e = ErrHelp then 0 else 2)"
| "exit_status (Completed r) = exit_code r"


section \<open>Notions of the specification\<close>

text \<open>
  What the Flag Normalizer makes of one token: the token itself where the guard of the
  loop body holds, otherwise one entry for each byte after the first.
\<close>

definition expand_token :: "string \<Rightarrow> string list" where
  "expand_token a =
     (if \<not> HasPrefix a ''-'' \<or> HasPrefix a ''--'' \<or> length a = 2 then [a]
      else map (\<lambda>c. ''-'' @ string_of_byte c) (drop 1 a))"

text \<open>
  The hidden attribute of a path as the platform reports it: \<open>None\<close> where the query
  fails (the path cannot be passed to the system, or the system returns an error).
\<close>

definition hidden_attribute :: "os_env \<Rightarrow> string \<Rightarrow> bool option" where
  "hidden_attribute env path =
     (case UTF16PtrFromString path of
        Inl e \<Rightarrow> None
      | Inr p \<Rightarrow>
          (case GetFileAttributes env p of
             Inl e \<Rightarrow> None
           | Inr attrs \<Rightarrow> Some (bit attrs 1)))"

text \<open>
  The visibility rule of the Entry Collector: with \<open>showHidden\<close> every entry is visible;
  without it an entry is visible unless its name begins with a dot or the entry carries
  the hidden attribute, a failed query counting as not hidden.
\<close>

definition visible :: "os_env \<Rightarrow> string \<Rightarrow> bool \<Rightarrow> string \<Rightarrow> bool" where
  "visible env dir showHidden name =
     (showHidden \<or>
      (\<not> (name \<noteq> [] \<and> hd name = CHR ''.'')
       \<and> hidden_attribute env (Join env dir name) \<noteq> Some True))"

subsection \<open>An example environment\<close>

text \<open>
  The current directory holds four entries, of which \<^verbatim>\<open>c.mp3\<close> carries the hidden
  attribute and \<^verbatim>\<open>b.txt\<close> cannot be examined by \<^verbatim>\<open>os.Stat\<close>; the directory
  \<^verbatim>\<open>empty\<close> holds none; no other directory can be read.  The terminal is 20 columns
  wide.  The lower-case table holds three entries (the Kelvin sign becomes \<^verbatim>\<open>k\<close>,
  capital I with dot above becomes \<^verbatim>\<open>i\<close>, capital E with acute becomes small e with
  acute) and leaves every other code point.
\<close>

definition example_file :: FileInfo where
  "example_file =
     \<lparr>IsDir = False, Mode_String = ''-rw-rw-rw-'', Size = 1234,
      ModTime_Format = ''Jan  2 15:04''\<rparr>"

definition example_env :: os_env where
  "example_env =
     \<lparr>ReadDir = (\<lambda>d. if d = ''.'' then Inr [''.secret'', ''A.EXE'', ''b.txt'', ''c.mp3'']
                     else if d = ''empty'' then Inr []
                     else Inl (Error ''The system cannot find the file specified.'')),
      Stat = (\<lambda>p. if p = ''./b.txt'' then Inl (Error ''Access is denied.'')
                  else Inr example_file),
      GetFileAttributes = (\<lambda>p. if p = ''./c.mp3'' then Inr 0x22 else Inr 0x20),
      GetSize = Inr (20, 25),
      Join = (\<lambda>d n. d @ ''/'' @ n),
      To_LowerCase = (\<lambda>r. if r = 0x212A then 0x6B else if r = 0x130 then 0x69
                           else if r = 0xC9 then 0xE9 else r)\<rparr>"

subsection \<open>Classifier\<close>

datatype DisplayCategory = Directory | Executable | Archive | Media | Audio | Plain

text \<open>The four static extension sets, lowercase and without the dot.\<close>

definition executable_exts :: "string list" where
  "executable_exts = [''exe'', ''bat'', ''cmd'', ''com'', ''ps1'']"

definition archive_exts :: "string list" where
  "archive_exts = [''zip'', ''tar'', ''gz'', ''tgz'', ''7z'', ''rar'']"

definition media_exts :: "string list" where
  "media_exts =
     [''jpg'', ''jpeg'', ''png'', ''gif'', ''bmp'', ''webp'', ''mp4'', ''mkv'', ''mov'', ''avi'']"

definition audio_exts :: "string list" where
  "audio_exts = [''mp3'', ''wav'', ''flac'', ''aac'', ''ogg'']"

text \<open>The extension of a name: what follows its final dot, empty when it has no dot.\<close>

definition extension :: "string \<Rightarrow> string" where
  "extension name =
     (if CHR ''.'' \<in> set name then rev (takeWhile (\<lambda>c. c \<noteq> CHR ''.'') (rev name)) else [])"

text \<open>
  The category of an entry: a directory is \<open>Directory\<close> whatever its name; otherwise
  the lowercase extension is looked up in the four sets, in this order.
\<close>

definition classify :: "os_env \<Rightarrow> bool \<Rightarrow> string \<Rightarrow> DisplayCategory" where
  "classify env isDirectory name =
     (if isDirectory then Directory
      else
        let ext = ToLower (To_LowerCase env) (extension name) in
        if ext \<in> set executable_exts then Executable
        else if ext \<in> set archive_exts then Archive
        else if ext \<in> set media_exts then Media
        else if ext \<in> set audio_exts then Audio
        else Plain)"

text \<open>
  A change of case: two bytes are the same letter when they are equal or one is a letter
  \<^verbatim>\<open>A\<close> to \<^verbatim>\<open>Z\<close> and the other is its small letter, 32 above; a name with its
  case changed has the same letters, byte for byte.
\<close>

definition same_letter :: "char \<Rightarrow> char \<Rightarrow> bool" where
  "same_letter a b =
     (a = b
      \<or> (0x41 \<le> (of_char a :: nat) \<and> (of_char a :: nat) \<le> 0x5A
           \<and> (of_char b :: nat) = of_char a + 32)
      \<or> (0x41 \<le> (of_char b :: nat) \<and> (of_char b :: nat) \<le> 0x5A
           \<and> (of_char a :: nat) = of_char b + 32))"

definition case_changed :: "string \<Rightarrow> string \<Rightarrow> bool" where
  "case_changed name name' = list_all2 same_letter name name'"

text \<open>The decoration of each category.\<close>

fun decorate :: "DisplayCategory \<Rightarrow> string \<Rightarrow> string" where
  "decorate Directory name = blue name"
| "decorate Executable name = green name"
| "decorate Archive name = red name"
| "decorate Media name = magenta name"
| "decorate Audio name = cyan name"
| "decorate Plain name = name"

text \<open>
  The scan of \<^verbatim>\<open>filepath.Ext\<close> as a recursion over the bytes not yet scanned, last
  byte first, with the bytes already passed.
\<close>

fun ext_scan :: "string \<Rightarrow> string \<Rightarrow> string" where
  "ext_scan [] acc = []"
| "ext_scan (c # r) acc =
     (if IsPathSeparator c then []
      else if c = CHR ''.'' then c # acc
      else ext_scan r (c # acc))"

subsection \<open>Example names for the grid\<close>

definition example_names :: "string list" where
  "example_names = [''a'', ''b'', ''c'', ''d'', ''e'']"

subsection \<open>A cell whose file cannot be examined\<close>

text \<open>
  The cell \<open>x\<close> as it is printed when \<^verbatim>\<open>os.Stat\<close> fails on the path \<open>p\<close>:
  a cell of that path writes its bare name in place of the decorated one and keeps its
  padding; every other cell is unchanged.
\<close>

definition bare_at :: "os_env \<Rightarrow> string \<Rightarrow> string \<Rightarrow> cell \<Rightarrow> cell" where
  "bare_at env dir p x =
     (if Join env dir (cell_name x) = p
      then x\<lparr>cell_writes := cell_name x # tl (cell_writes x)\<rparr>
      else x)"

section \<open>Flag Normalizer: properties\<close>

lemma split_loop_eq:
  "split_loop a i out = out @ map (\<lambda>c. ''-'' @ string_of_byte c) (drop i a)"
proof (induction a i out rule: split_loop.induct)
  case (1 a i out)
  show ?case
  proof (cases "i < length a")
    case True
    then have "drop i a = a ! i # drop (i + 1) a"
      by (simp add: Cons_nth_drop_Suc)
    with True 1 show ?thesis by (subst split_loop.simps) simp
  next
    case False
    then show ?thesis by (subst split_loop.simps) simp
  qed
qed

lemma expand_loop_eq: "expand_loop args out = out @ concat (map expand_token args)"
  by (induction args arbitrary: out) (simp_all add: expand_token_def split_loop_eq)

lemma expandCombinedFlags_eq: "expandCombinedFlags args = concat (map expand_token args)"
  by (simp add: expandCombinedFlags_def expand_loop_eq)

lemma expand_token_dash: "expand_token ''-'' = []"
  by (simp add: expand_token_def HasPrefix_def)

lemma normalized_args:
  "(if length args > 0 then expandCombinedFlags args else args) = expandCombinedFlags args"
  by (cases args) (simp_all add: expandCombinedFlags_def)

lemma main_eq:
  "main env args =
     (case flag_Parse \<lparr>longFlag = False, allFlag = False\<rparr> (expandCombinedFlags args) of
        Inl e \<Rightarrow> ExitInFlagParse e
      | Inr (fs, rest) \<Rightarrow>
          let dir = (if length rest > 0 then rest ! 0 else ''.'') in
          (case ReadDir env dir of
             Inl err \<Rightarrow> Completed \<lparr>stdout = [], stderr = [error_line err], exit_code = 1\<rparr>
           | Inr entries \<Rightarrow>
               let names = collect_names env dir (allFlag fs) entries;
                   width = terminal_width env
               in if longFlag fs then
                    (case long_loop env dir names ([], []) of
                       (out, err) \<Rightarrow> Completed \<lparr>stdout = out, stderr = err, exit_code = 0\<rparr>)
                  else
                    Completed \<lparr>stdout = grid_writes (grid env dir names width),
                               stderr = [], exit_code = 0\<rparr>))"
  unfolding main_def normalized_args by (rule refl)

text \<open>
  Claim C9.  The token \<^verbatim>\<open>-\<close> starts with a dash, does not start with two and has not
  two bytes, so the splitting loop runs over no byte and appends nothing: wherever the
  token stands in the argument list, the output is that of the list without it, and on
  the input \<^verbatim>\<open>["-", "-l"]\<close> the output is shorter than the input.
\<close>

theorem lone_dash_is_dropped:
  "expandCombinedFlags (xs @ [''-''] @ ys) = expandCombinedFlags (xs @ ys)
   \<and> length (expandCombinedFlags [''-'', ''-l'']) < length [''-'', ''-l'']"
  by (simp add: expandCombinedFlags_eq expand_token_dash)
     (simp add: expand_token_def HasPrefix_def)

text \<open>
  Claim C5, at the token \<^verbatim>\<open>-\<close> followed by the two bytes C3 A9 (the UTF-8 form of
  e with acute accent).  The claim asks for one token for each character after the dash,
  the dash put back in front of it.  The code appends \<^verbatim>\<open>"-"+string(a[i])\<close>, and the
  conversion of a byte from 128 on yields two bytes: the output tokens are dash C3 83 and
  dash C2 A9, neither of which is a dash with a byte of the input.
\<close>

theorem split_of_non_ascii_token:
  "expandCombinedFlags [[CHR ''-'', CHR 0xC3, CHR 0xA9]]
     = [[CHR ''-'', CHR 0xC3, CHR 0x83], [CHR ''-'', CHR 0xC2, CHR 0xA9]]
   \<and> expandCombinedFlags [[CHR ''-'', CHR 0xC3, CHR 0xA9]]
     \<noteq> [[CHR ''-'', CHR 0xC3], [CHR ''-'', CHR 0xA9]]"
  by (simp add: expandCombinedFlags_eq expand_token_def HasPrefix_def)

text \<open>
  Claim C6, at the same token.  Each token of the first output has three bytes and a
  single leading dash, so the second pass splits it again: normalizing the output of the
  normalizer yields four tokens, not the two it was given.
\<close>

theorem normalizing_twice_differs:
  "expandCombinedFlags (expandCombinedFlags [[CHR ''-'', CHR 0xC3, CHR 0xA9]])
     = [[CHR ''-'', CHR 0xC3, CHR 0x83], [CHR ''-'', CHR 0xC2, CHR 0x83],
        [CHR ''-'', CHR 0xC3, CHR 0x82], [CHR ''-'', CHR 0xC2, CHR 0xA9]]
   \<and> expandCombinedFlags (expandCombinedFlags [[CHR ''-'', CHR 0xC3, CHR 0xA9]])
     \<noteq> expandCombinedFlags [[CHR ''-'', CHR 0xC3, CHR 0xA9]]"
  by (simp add: expandCombinedFlags_eq expand_token_def HasPrefix_def)

subsection \<open>Tokens of ASCII bytes\<close>

text \<open>
  On bytes below 128 the conversion \<^verbatim>\<open>string(a[i])\<close> is the byte itself.  A combined
  token of such bytes is split into one two-byte token for each byte after the dash, and
  a second pass leaves every token of the first pass as it is.
\<close>

lemma string_of_byte_ascii: "of_char c < (128::nat) \<Longrightarrow> string_of_byte c = [c]"
  by (cases c) (auto split: if_splits)

lemma expand_token_pass:
  "\<not> HasPrefix a ''-'' \<or> HasPrefix a ''--'' \<or> length a = 2 \<Longrightarrow> expand_token a = [a]"
  by (simp add: expand_token_def)

lemma expand_token_split_ascii:
  assumes "HasPrefix a ''-''" and "\<not> HasPrefix a ''--''" and "2 < length a"
    and "\<forall>c \<in> set (drop 1 a). of_char c < (128::nat)"
  shows "expand_token a = map (\<lambda>c. [CHR ''-'', c]) (drop 1 a)"
  using assms by (simp add: expand_token_def string_of_byte_ascii)

lemma expand_token_twice_ascii:
  assumes "\<forall>c \<in> set a. of_char c < (128::nat)"
  shows "concat (map expand_token (expand_token a)) = expand_token a"
proof (cases "\<not> HasPrefix a ''-'' \<or> HasPrefix a ''--'' \<or> length a = 2")
  case True
  then show ?thesis by (simp add: expand_token_def)
next
  case False
  have "\<forall>c \<in> set (drop 1 a). of_char c < (128::nat)"
    using assms by (meson in_set_dropD)
  then have e: "expand_token a = map (\<lambda>c. [CHR ''-'', c]) (drop 1 a)"
    using False by (simp add: expand_token_def string_of_byte_ascii)
  have "concat (map expand_token (map (\<lambda>c. [CHR ''-'', c]) xs)) = map (\<lambda>c. [CHR ''-'', c]) xs"
    for xs
    by (induction xs) (simp_all add: expand_token_def)
  with e show ?thesis by simp
qed

lemma expandCombinedFlags_append:
  "expandCombinedFlags (xs @ ys) = expandCombinedFlags xs @ expandCombinedFlags ys"
  by (simp add: expandCombinedFlags_eq)

lemma expandCombinedFlags_idem_ascii:
  assumes "\<forall>a \<in> set args. \<forall>c \<in> set a. of_char c < (128::nat)"
  shows "expandCombinedFlags (expandCombinedFlags args) = expandCombinedFlags args"
  using assms
  by (induction args) (simp_all add: expandCombinedFlags_eq expand_token_twice_ascii)

section \<open>Entry Collector: properties\<close>

lemma HasPrefix_dot: "HasPrefix name ''.'' \<longleftrightarrow> name \<noteq> [] \<and> hd name = CHR ''.''"
  by (cases name) (auto simp: HasPrefix_def)

lemma hidden_bit: "(attrs AND FILE_ATTRIBUTE_HIDDEN \<noteq> 0) = bit (attrs :: 32 word) 1"
  using and_exp_eq_0_iff_not_bit [of attrs 1] by (simp add: FILE_ATTRIBUTE_HIDDEN_def)

lemma isHidden_eq: "isHidden env path = (hidden_attribute env path = Some True)"
  by (simp add: isHidden_def hidden_attribute_def hidden_bit split: sum.splits)

lemma collect_loop_eq:
  "collect_loop env dir all entries names = names @ filter (visible env dir all) entries"
  by (induction entries arbitrary: names)
     (auto simp: visible_def HasPrefix_dot isHidden_eq)

lemma dots_loop_eq:
  "dots_loop ns (a, b) = (a \<or> ''.'' \<in> set ns, b \<or> ''..'' \<in> set ns)"
  by (induction ns arbitrary: a b) auto

lemma set_add_dots:
  "set (add_dots all names) = set names \<union> (if all then {''.'', ''..''} else {})"
  by (auto simp: add_dots_def dots_loop_eq)

lemma distinct_add_dots: "distinct names \<Longrightarrow> distinct (add_dots all names)"
  by (auto simp: add_dots_def dots_loop_eq)

lemma count_list_distinct: "distinct xs \<Longrightarrow> x \<in> set xs \<Longrightarrow> count_list xs x = 1"
  by (induction xs) auto

text \<open>
  Claim C1.  A directory's children have pairwise different names.  For every such list
  of children, every directory path and both values of \<open>showHidden\<close>, the names that
  the Entry Collector returns are exactly the children that pass the visibility rule,
  together with \<^verbatim>\<open>.\<close> and \<^verbatim>\<open>..\<close> when \<open>showHidden\<close> is set; no name occurs
  twice, the two synthetic names occur exactly once each, and the list is in ascending
  bytewise order.  A sorted list without duplicates is determined by its set of elements,
  so this fixes the result.
\<close>

theorem entry_collector_names:
  assumes "distinct entries"
  shows "set (collect_names env dir showHidden entries)
           = {n \<in> set entries. visible env dir showHidden n}
             \<union> (if showHidden then {''.'', ''..''} else {})
         \<and> distinct (collect_names env dir showHidden entries)
         \<and> sorted (collect_names env dir showHidden entries)
         \<and> (showHidden \<longrightarrow>
              count_list (collect_names env dir showHidden entries) ''.'' = 1
              \<and> count_list (collect_names env dir showHidden entries) ''..'' = 1)"
proof -
  let ?f = "collect_loop env dir showHidden entries []"
  let ?r = "collect_names env dir showHidden entries"
  have r: "?r = sort (add_dots showHidden ?f)"
    by (simp add: collect_names_def)
  have f: "?f = filter (visible env dir showHidden) entries"
    by (simp add: collect_loop_eq)
  have s: "set ?r = {n \<in> set entries. visible env dir showHidden n}
             \<union> (if showHidden then {''.'', ''..''} else {})"
    by (simp add: r f set_add_dots)
  have d: "distinct ?r"
    using assms by (simp add: r f distinct_add_dots)
  have o: "sorted ?r"
    by (simp add: r)
  have c: "count_list ?r x = 1" if "x \<in> set ?r" for x
    using d that by (rule count_list_distinct)
  have "''.'' \<in> set ?r" and "''..'' \<in> set ?r" if showHidden
    using that s by auto
  then have k: "showHidden \<longrightarrow> count_list ?r ''.'' = 1 \<and> count_list ?r ''..'' = 1"
    using c by blast
  from s d o k show ?thesis by blast
qed

theorem entry_collector_names_witness:
  "distinct [''.secret'', ''A.EXE'', ''b.txt'', ''c.mp3'']
   \<and> set (collect_names example_env ''.'' True [''.secret'', ''A.EXE'', ''b.txt'', ''c.mp3''])
       = {''.'', ''..'', ''.secret'', ''A.EXE'', ''b.txt'', ''c.mp3''}
   \<and> distinct (collect_names example_env ''.'' True [''.secret'', ''A.EXE'', ''b.txt'', ''c.mp3''])
   \<and> sorted (collect_names example_env ''.'' True [''.secret'', ''A.EXE'', ''b.txt'', ''c.mp3''])
   \<and> count_list
        (collect_names example_env ''.'' True [''.secret'', ''A.EXE'', ''b.txt'', ''c.mp3''])
        ''.'' = 1"
  using entry_collector_names
    [of "[''.secret'', ''A.EXE'', ''b.txt'', ''c.mp3'']" example_env "''.''" True]
  by (auto simp: visible_def)

section \<open>\<^verbatim>\<open>strings.ToLower\<close>: properties\<close>

subsection \<open>Decoding next to a byte below 80\<close>

lemma ascii_not_cont: "(of_char c :: nat) < 0x80 \<Longrightarrow> \<not> cont c"
  by (simp add: cont_def)

lemma ascii_not_second: "(of_char c :: nat) < 0x80 \<Longrightarrow> \<not> second_ok x c"
  by (simp add: second_ok_def)

lemma DecodeRune_width: "s \<noteq> [] \<Longrightarrow> 1 \<le> snd (DecodeRune s) \<and> snd (DecodeRune s) \<le> length s"
  by (cases s) (auto simp: Let_def split: list.splits)

lemma DecodeRune_append:
  assumes "a \<noteq> []" and "(of_char c :: nat) < 0x80"
  shows "DecodeRune (a @ c # b) = DecodeRune a"
proof -
  from assms(1) obtain p0 t where a: "a = p0 # t" by (cases a) auto
  show ?thesis
    unfolding a using assms(2)
    by (cases t; cases "tl t"; cases "tl (tl t)")
       (auto simp: Let_def ascii_not_cont ascii_not_second split: list.splits)
qed

subsection \<open>The bytes below 80 are lowered one by one\<close>

lemma runes_append:
  assumes "(of_char c :: nat) < 0x80"
  shows "runes (a @ c # b) = runes a @ of_char c # runes b"
proof (induction a rule: runes.induct)
  case 1
  from assms show ?case by (simp add: Let_def)
next
  case (2 p0 t)
  obtain r w where d: "DecodeRune (p0 # t) = (r, w)"
    by (cases "DecodeRune (p0 # t)")
  have w: "1 \<le> w" "w \<le> length (p0 # t)"
    using DecodeRune_width [of "p0 # t"] d by simp_all
  have "DecodeRune ((p0 # t) @ c # b) = (r, w)"
    using DecodeRune_append [of "p0 # t" c b] assms d by simp
  then have "runes ((p0 # t) @ c # b) = r # runes (drop (w - 1) (t @ c # b))"
    by simp
  also have "drop (w - 1) (t @ c # b) = drop (w - 1) t @ c # b"
    using w by simp
  also have "runes (drop (w - 1) t @ c # b) = runes (drop (w - 1) t) @ of_char c # runes b"
    using 2 d by simp
  finally show ?case
    using d by simp
qed

lemma of_char_lower_ascii:
  "(of_char (lower_ascii c) :: nat)
     = (if 65 \<le> (of_char c :: nat) \<and> (of_char c :: nat) \<le> 90 then of_char c + 32 else of_char c)"
  by (cases c) (auto simp: Let_def)


lemma lower_ascii_is_ascii: "(of_char (lower_ascii c) :: nat) < 0x80 \<longleftrightarrow> (of_char c :: nat) < 0x80"
  by (auto simp: of_char_lower_ascii)

lemma unicode_ToLower_ascii:
  "(of_char c :: nat) < 0x80 \<Longrightarrow>
   unicode_ToLower table (of_char c) = of_char (lower_ascii c)"
  by (auto simp: unicode_ToLower_def of_char_lower_ascii)

lemma EncodeRune_ascii: "(of_char c :: nat) < 0x80 \<Longrightarrow> EncodeRune (of_char c) = [c]"
  by (simp add: EncodeRune_def)

lemma Map_runes_append:
  assumes "(of_char c :: nat) < 0x80"
  shows "Map_runes (unicode_ToLower table) (a @ c # b)
           = Map_runes (unicode_ToLower table) a @ lower_ascii c
               # Map_runes (unicode_ToLower table) b"
proof -
  have "EncodeRune (unicode_ToLower table (of_char c)) = [lower_ascii c]"
    using assms EncodeRune_ascii [of "lower_ascii c"]
    by (simp add: unicode_ToLower_ascii lower_ascii_is_ascii)
  then show ?thesis
    using assms by (simp add: Map_runes_def runes_append)
qed

lemma ToLower_ascii_byte:
  assumes "c \<in> set e" and "(of_char c :: nat) < 0x80"
  shows "lower_ascii c \<in> set (ToLower table e)"
proof (cases "\<forall>c \<in> set e. (of_char c :: nat) < 0x80")
  case True
  with assms(1) show ?thesis by (simp add: ToLower_def)
next
  case False
  from assms(1) obtain a b where "e = a @ c # b"
    by (auto simp: in_set_conv_decomp)
  with False assms(2) show ?thesis
    by (simp add: ToLower_def Map_runes_append del: set_append)
       (simp add: Map_runes_append)
qed



subsection \<open>No dot comes from a code point that is not a dot\<close>



















section \<open>Classifier: properties\<close>

lemma lower_ascii_sep: "IsPathSeparator c \<Longrightarrow> lower_ascii c = c"
  by (cases c) (auto simp: IsPathSeparator_def)

lemma sep_ascii: "IsPathSeparator c \<Longrightarrow> (of_char c :: nat) < 0x80"
  by (auto simp: IsPathSeparator_def)

lemma sep_not_dot: "IsPathSeparator c \<Longrightarrow> c \<noteq> CHR ''.''"
  by (auto simp: IsPathSeparator_def)

lemma Ext_loop_snoc:
  "Ext_loop (xs @ c # ys) (Suc (length xs)) =
     (if IsPathSeparator c then [] else if c = CHR ''.'' then c # ys
      else Ext_loop (xs @ c # ys) (length xs))"
  by simp

lemma Ext_loop_eq: "Ext_loop (xs @ ys) (length xs) = ext_scan (rev xs) ys"
proof (induction xs arbitrary: ys rule: rev_induct)
  case Nil
  show ?case by simp
next
  case (snoc c xs)
  have "Ext_loop ((xs @ [c]) @ ys) (length (xs @ [c])) = Ext_loop (xs @ c # ys) (Suc (length xs))"
    by simp
  also have "\<dots> = (if IsPathSeparator c then [] else if c = CHR ''.'' then c # ys
      else Ext_loop (xs @ c # ys) (length xs))"
    by (rule Ext_loop_snoc)
  finally show ?case
    using snoc.IH [of "c # ys"] by simp
qed

lemma Ext_eq: "Ext name = ext_scan (rev name) []"
  using Ext_loop_eq [of name "[]"] by (simp add: Ext_def)

lemma TrimPrefix_dot: "TrimPrefix (CHR ''.'' # e) ''.'' = e" "TrimPrefix [] ''.'' = []"
  by (simp_all add: TrimPrefix_def HasPrefix_def)

lemma ext_scan_cases:
  "TrimPrefix (ext_scan r s) ''.''
     = (if CHR ''.'' \<in> set r then rev (takeWhile (\<lambda>c. c \<noteq> CHR ''.'') r) @ s else [])
   \<or> (TrimPrefix (ext_scan r s) ''.'' = []
      \<and> (\<exists>c \<in> set (if CHR ''.'' \<in> set r then rev (takeWhile (\<lambda>c. c \<noteq> CHR ''.'') r) @ s
                    else []). IsPathSeparator c))"
proof (induction r arbitrary: s)
  case Nil
  show ?case by (simp add: TrimPrefix_dot)
next
  case (Cons c r)
  show ?case
  proof (cases "IsPathSeparator c")
    case True
    then show ?thesis by (auto simp: TrimPrefix_dot dest: sep_not_dot)
  next
    case False
    show ?thesis
    proof (cases "c = CHR ''.''")
      case True
      with False show ?thesis by (simp add: TrimPrefix_dot)
    next
      case False
      with \<open>\<not> IsPathSeparator c\<close> Cons.IH [of "c # s"] show ?thesis
        by (auto split: if_splits)
    qed
  qed
qed

lemma code_ext_cases:
  "TrimPrefix (Ext name) ''.'' = extension name
   \<or> (TrimPrefix (Ext name) ''.'' = [] \<and> (\<exists>c \<in> set (extension name). IsPathSeparator c))"
  using ext_scan_cases [of "rev name" "[]"] by (auto simp: Ext_eq extension_def split: if_splits)

lemmas exts_defs = executable_exts_def archive_exts_def media_exts_def audio_exts_def

lemma exts_no_sep:
  "w \<in> set (executable_exts @ archive_exts @ media_exts @ audio_exts)
   \<Longrightarrow> w \<noteq> [] \<and> (\<forall>c \<in> set w. \<not> IsPathSeparator c)"
  by (auto simp: exts_defs IsPathSeparator_def)

lemma ToLower_Nil: "ToLower table [] = []"
  by (simp add: ToLower_def)

lemma ToLower_sep:
  "c \<in> set e \<Longrightarrow> IsPathSeparator c \<Longrightarrow> c \<in> set (ToLower table e)"
  using ToLower_ascii_byte [of c e table] by (simp add: lower_ascii_sep sep_ascii)

lemma ext_member:
  assumes "set W \<subseteq> set (executable_exts @ archive_exts @ media_exts @ audio_exts)"
  shows "ToLower table (TrimPrefix (Ext name) ''.'') \<in> set W
           \<longleftrightarrow> ToLower table (extension name) \<in> set W"
proof -
  consider (same) "TrimPrefix (Ext name) ''.'' = extension name"
    | (sep) c where "TrimPrefix (Ext name) ''.'' = []" "c \<in> set (extension name)" "IsPathSeparator c"
    using code_ext_cases [of name] by blast
  then show ?thesis
  proof cases
    case same
    then show ?thesis by simp
  next
    case sep
    have "ToLower table [] \<notin> set W"
      using assms exts_no_sep [of "[]"] by (auto simp: ToLower_Nil)
    moreover have "ToLower table (extension name) \<notin> set W"
    proof
      assume "ToLower table (extension name) \<in> set W"
      with assms have "\<forall>c \<in> set (ToLower table (extension name)). \<not> IsPathSeparator c"
        using exts_no_sep by blast
      with ToLower_sep [OF sep(2,3)] sep(3) show False by blast
    qed
    ultimately show ?thesis by (simp add: sep(1))
  qed
qed

lemma colorName_classify:
  "colorName env name path (Some fi) = decorate (classify env (IsDir fi) name) name"
proof -
  let ?e = "ToLower (To_LowerCase env) (TrimPrefix (Ext name) ''.'')"
  let ?x = "ToLower (To_LowerCase env) (extension name)"
  have 1: "isExecutable ?e \<longleftrightarrow> ?x \<in> set executable_exts"
    unfolding isExecutable_def executable_exts_def [symmetric] by (rule ext_member) auto
  have 2: "isArchive ?e \<longleftrightarrow> ?x \<in> set archive_exts"
    unfolding isArchive_def archive_exts_def [symmetric] by (rule ext_member) auto
  have 3: "isImageOrVideo ?e \<longleftrightarrow> ?x \<in> set media_exts"
    unfolding isImageOrVideo_def media_exts_def [symmetric] by (rule ext_member) auto
  have 4: "isAudio ?e \<longleftrightarrow> ?x \<in> set audio_exts"
    unfolding isAudio_def audio_exts_def [symmetric] by (rule ext_member) auto
  show ?thesis
    by (simp add: colorName_def classify_def Let_def 1 2 3 4)
qed



lemma same_letter_lower_ascii: "same_letter c (lower_ascii c)"
proof (cases "65 \<le> (of_char c :: nat) \<and> (of_char c :: nat) \<le> 90")
  case True
  then show ?thesis
    by (simp add: same_letter_def of_char_lower_ascii)
next
  case False
  then have "(of_char (lower_ascii c) :: nat) = of_char c"
    by (simp add: of_char_lower_ascii)
  then have "lower_ascii c = c"
    by (simp only: of_char_eq_iff)
  then show ?thesis
    by (simp add: same_letter_def)
qed

lemma case_changed_lower: "case_changed name (map lower_ascii name)"
  by (induction name) (simp_all add: case_changed_def same_letter_lower_ascii)




lemma fmt_d_codes:
  "fmt_d 34 = ''34''" "fmt_d 32 = ''32''" "fmt_d 31 = ''31''" "fmt_d 35 = ''35''" "fmt_d 36 = ''36''"
  by code_simp+




section \<open>Long mode: properties\<close>

lemma long_loop_eq:
  "long_loop env dir names (out, err) =
     (out @ map (\<lambda>n. long_line env n (Join env dir n) (projr (Stat env (Join env dir n))))
              (filter (\<lambda>n. \<not> isl (Stat env (Join env dir n))) names),
      err @ map (\<lambda>n. error_line (projl (Stat env (Join env dir n))))
              (filter (\<lambda>n. isl (Stat env (Join env dir n))) names))"
  by (induction names arbitrary: out err) (auto simp: Let_def split: sum.splits)

lemma sorted_collect_names: "sorted (collect_names env dir all entries)"
  by (simp add: collect_names_def)

text \<open>
  Claim C8.  When the flags are accepted with \<^verbatim>\<open>-l\<close> set and the directory is read,
  the collected names are in sorted order and the run passes over them in that order.
  For each name whose \<^verbatim>\<open>os.Stat\<close> succeeds it writes to standard output the line of
  that entry: mode, size in a field of eight, modification time and the decorated name,
  separated by one space and ended by a line feed.  For each name whose \<^verbatim>\<open>os.Stat\<close>
  fails it writes to standard error the line \<^verbatim>\<open>error: \<close>, the text of the error and a
  line feed, and nothing to standard output.  A failure skips that name only: the names
  after it are treated as the names before it, and the run ends with status 0.
\<close>

theorem long_mode_stat_failures:
  assumes "flag_Parse \<lparr>longFlag = False, allFlag = False\<rparr> (expandCombinedFlags args) = Inr (fs, rest)"
    and "longFlag fs"
    and "dir = (if length rest > 0 then rest ! 0 else ''.'')"
    and "ReadDir env dir = Inr entries"
    and "names = collect_names env dir (allFlag fs) entries"
  shows "sorted names
    \<and> main env args = Completed
         \<lparr>stdout =
            map (\<lambda>n. Mode_String (projr (Stat env (Join env dir n))) @ '' ''
                       @ fmt_8d (Size (projr (Stat env (Join env dir n)))) @ '' ''
                       @ ModTime_Format (projr (Stat env (Join env dir n))) @ '' ''
                       @ colorName env n (Join env dir n) (Some (projr (Stat env (Join env dir n))))
                       @ [CHR 0x0A])
              (filter (\<lambda>n. \<not> isl (Stat env (Join env dir n))) names),
          stderr =
            map (\<lambda>n. ''error: '' @ message (projl (Stat env (Join env dir n))) @ [CHR 0x0A])
              (filter (\<lambda>n. isl (Stat env (Join env dir n))) names),
          exit_code = 0\<rparr>"
  using assms
  by (simp add: main_eq long_loop_eq Let_def long_line_def error_line_def newline_def
      sorted_collect_names)

theorem long_mode_stat_failures_witness:
  "flag_Parse \<lparr>longFlag = False, allFlag = False\<rparr> (expandCombinedFlags [''-la''])
     = Inr (\<lparr>longFlag = True, allFlag = True\<rparr>, [])
   \<and> ReadDir example_env ''.'' = Inr [''.secret'', ''A.EXE'', ''b.txt'', ''c.mp3'']
   \<and> collect_names example_env ''.'' True [''.secret'', ''A.EXE'', ''b.txt'', ''c.mp3'']
       = [''.'', ''..'', ''.secret'', ''A.EXE'', ''b.txt'', ''c.mp3'']
   \<and> Stat example_env ''./b.txt'' = Inl (Error ''Access is denied.'')
   \<and> main example_env [''-la''] = Completed
        \<lparr>stdout =
           [''-rw-rw-rw-     1234 Jan  2 15:04 .'' @ [CHR 0x0A],
            ''-rw-rw-rw-     1234 Jan  2 15:04 ..'' @ [CHR 0x0A],
            ''-rw-rw-rw-     1234 Jan  2 15:04 .secret'' @ [CHR 0x0A],
            ''-rw-rw-rw-     1234 Jan  2 15:04 '' @ [CHR 0x1B] @ ''[32mA.EXE'' @ [CHR 0x1B]
              @ ''[0m'' @ [CHR 0x0A],
            ''-rw-rw-rw-     1234 Jan  2 15:04 '' @ [CHR 0x1B] @ ''[36mc.mp3'' @ [CHR 0x1B]
              @ ''[0m'' @ [CHR 0x0A]],
         stderr = [''error: Access is denied.'' @ [CHR 0x0A]],
         exit_code = 0\<rparr>"
proof -
  have p: "flag_Parse \<lparr>longFlag = False, allFlag = False\<rparr> (expandCombinedFlags [''-la''])
     = Inr (\<lparr>longFlag = True, allFlag = True\<rparr>, [])"
    by (simp add: expandCombinedFlags_eq expand_token_def HasPrefix_def parseOne_def
        find_equals.simps set_flag_def)
  have r: "ReadDir example_env ''.'' = Inr [''.secret'', ''A.EXE'', ''b.txt'', ''c.mp3'']"
    by (simp add: example_env_def)
  have c: "collect_names example_env ''.'' True [''.secret'', ''A.EXE'', ''b.txt'', ''c.mp3'']
       = [''.'', ''..'', ''.secret'', ''A.EXE'', ''b.txt'', ''c.mp3'']"
    by (simp add: collect_names_def add_dots_def)
  have s: "Stat example_env (Join example_env ''.'' n)
             = (if n = ''b.txt'' then Inl (Error ''Access is denied.'') else Inr example_file)" for n
    by (simp add: example_env_def)
  have b: "Stat example_env ''./b.txt'' = Inl (Error ''Access is denied.'')"
    by (simp add: example_env_def)
  have f: "fmt_8d 1234 = ''    1234''"
    by code_simp
  have n: "colorName example_env ''.'' p (Some example_file) = ''.''"
    "colorName example_env ''..'' p (Some example_file) = ''..''"
    "colorName example_env ''.secret'' p (Some example_file) = ''.secret''"
    "colorName example_env ''A.EXE'' p (Some example_file)
       = [CHR 0x1B] @ ''[32mA.EXE'' @ [CHR 0x1B] @ ''[0m''"
    "colorName example_env ''c.mp3'' p (Some example_file)
       = [CHR 0x1B] @ ''[36mc.mp3'' @ [CHR 0x1B] @ ''[0m''" for p
    by (simp_all add: colorName_def example_file_def Ext_def TrimPrefix_def HasPrefix_def
        IsPathSeparator_def ToLower_def isExecutable_def isArchive_def isImageOrVideo_def
        isAudio_def green_def cyan_def colorWrap_def fmt_d_codes)
  have e: "Mode_String example_file = ''-rw-rw-rw-''" "Size example_file = 1234"
    "ModTime_Format example_file = ''Jan  2 15:04''"
    by (simp_all add: example_file_def)
  from long_mode_stat_failures
      [where args = "[''-la'']" and fs = "\<lparr>longFlag = True, allFlag = True\<rparr>" and rest = "[]"
        and dir = "''.''" and env = example_env
        and entries = "[''.secret'', ''A.EXE'', ''b.txt'', ''c.mp3'']"
        and names = "[''.'', ''..'', ''.secret'', ''A.EXE'', ''b.txt'', ''c.mp3'']"]
    p r c
  have "main example_env [''-la''] = Completed
        \<lparr>stdout =
           [''-rw-rw-rw-     1234 Jan  2 15:04 .'' @ [CHR 0x0A],
            ''-rw-rw-rw-     1234 Jan  2 15:04 ..'' @ [CHR 0x0A],
            ''-rw-rw-rw-     1234 Jan  2 15:04 .secret'' @ [CHR 0x0A],
            ''-rw-rw-rw-     1234 Jan  2 15:04 '' @ [CHR 0x1B] @ ''[32mA.EXE'' @ [CHR 0x1B]
              @ ''[0m'' @ [CHR 0x0A],
            ''-rw-rw-rw-     1234 Jan  2 15:04 '' @ [CHR 0x1B] @ ''[36mc.mp3'' @ [CHR 0x1B]
              @ ''[0m'' @ [CHR 0x0A]],
         stderr = [''error: Access is denied.'' @ [CHR 0x0A]],
         exit_code = 0\<rparr>"
    by (simp add: s n e f)
  with p r c b show ?thesis
    by (simp only: simp_thms)
qed

section \<open>Exit status\<close>

lemma exit_status_long:
  "exit_status (case long_loop env dir names ([], []) of
      (out, err) \<Rightarrow> Completed \<lparr>stdout = out, stderr = err, exit_code = 0\<rparr>) = 0"
  by (simp add: long_loop_eq)

lemma empty_listing: "collect_names env dir False [] = []" "grid env dir [] width = []"
  "grid_writes [] = []"
  by (simp_all add: collect_names_def add_dots_def grid_def grid_writes_def)

text \<open>
  Claim C7, as amended.  When the flag parser accepts the normalized arguments, the exit
  status is 1 exactly when reading the target directory fails, and then nothing is written
  to standard output and the error is the one line on standard error; the exit status is
  0 exactly when the directory is read.  With no arguments and an empty current
  directory nothing is written at all and the status is 0.
\<close>

theorem exit_code_when_flags_accepted:
  assumes "flag_Parse \<lparr>longFlag = False, allFlag = False\<rparr> (expandCombinedFlags args)
             = Inr (fs, rest)"
    and "dir = (if length rest > 0 then rest ! 0 else ''.'')"
  shows "(exit_status (main env args) = 1 \<longleftrightarrow> isl (ReadDir env dir))
       \<and> (exit_status (main env args) = 0 \<longleftrightarrow> \<not> isl (ReadDir env dir))
       \<and> (ReadDir env dir = Inl e \<longrightarrow>
            main env args = Completed \<lparr>stdout = [], stderr = [error_line e], exit_code = 1\<rparr>)
       \<and> (ReadDir env ''.'' = Inr [] \<longrightarrow>
            main env [] = Completed \<lparr>stdout = [], stderr = [], exit_code = 0\<rparr>)"
proof -
  have a: "exit_status (main env args) = (if isl (ReadDir env dir) then 1 else 0)"
    using assms
    by (cases "ReadDir env dir") (simp_all add: main_eq Let_def exit_status_long)
  have b: "main env args = Completed \<lparr>stdout = [], stderr = [error_line e], exit_code = 1\<rparr>"
    if "ReadDir env dir = Inl e"
    using assms that by (simp add: main_eq)
  have c: "main env [] = Completed \<lparr>stdout = [], stderr = [], exit_code = 0\<rparr>"
    if "ReadDir env ''.'' = Inr []"
    using that by (simp add: main_eq expandCombinedFlags_eq empty_listing)
  from a b c show ?thesis by simp
qed

theorem exit_code_when_flags_accepted_witness:
  "flag_Parse \<lparr>longFlag = False, allFlag = False\<rparr> (expandCombinedFlags [''nodir''])
     = Inr (\<lparr>longFlag = False, allFlag = False\<rparr>, [''nodir''])
   \<and> isl (ReadDir example_env ''nodir'')
   \<and> exit_status (main example_env [''nodir'']) = 1
   \<and> main example_env [''nodir''] = Completed
        \<lparr>stdout = [],
         stderr = [error_line (Error ''The system cannot find the file specified.'')],
         exit_code = 1\<rparr>"
proof -
  have p: "flag_Parse \<lparr>longFlag = False, allFlag = False\<rparr> (expandCombinedFlags [''nodir''])
     = Inr (\<lparr>longFlag = False, allFlag = False\<rparr>, [''nodir''])"
    by (simp add: expandCombinedFlags_eq expand_token_def HasPrefix_def parseOne_def)
  have r: "ReadDir example_env ''nodir''
      = Inl (Error ''The system cannot find the file specified.'')"
    by (simp add: example_env_def)
  from exit_code_when_flags_accepted
      [where args = "[''nodir'']" and fs = "\<lparr>longFlag = False, allFlag = False\<rparr>"
        and rest = "[''nodir'']" and dir = "''nodir''" and env = example_env
        and e = "Error ''The system cannot find the file specified.''"]
    p r
  show ?thesis by simp
qed

text \<open>
  Claim C7, as stated, fails when the flag parser rejects an argument: in the example
  environment the current directory can be read, and the argument \<^verbatim>\<open>-x\<close> ends the
  run inside \<^verbatim>\<open>flag.Parse\<close> with status 2, neither 1 nor 0.
\<close>

theorem undefined_flag_exits_with_2:
  "ReadDir example_env ''.'' = Inr [''.secret'', ''A.EXE'', ''b.txt'', ''c.mp3'']
   \<and> main example_env [''-x''] = ExitInFlagParse (NotDefined ''x'')
   \<and> exit_status (main example_env [''-x'']) = 2"
  by (simp add: main_eq expandCombinedFlags_eq expand_token_def HasPrefix_def
      parseOne_def find_equals.simps example_env_def)

section \<open>Grid mode: the loops in closed form\<close>

lemma col_loop_eq:
  "col_loop env dir names cw cols rows r c
     = List.map_filter (grid_cell env dir names cw cols rows r) [c..<cols]"
proof (induction env dir names cw cols rows r c rule: col_loop.induct)
  case (1 env dir names cw cols rows r c)
  show ?case
  proof (cases "c < cols")
    case True
    then have u: "[c..<cols] = c # [c + 1..<cols]"
      by (simp add: upt_conv_Cons)
    show ?thesis
    proof (cases "grid_cell env dir names cw cols rows r c")
      case None
      with True 1(1) u show ?thesis
        by (subst col_loop.simps) (simp add: List.map_filter_simps)
    next
      case (Some x)
      with True 1(2) u show ?thesis
        by (subst col_loop.simps) (simp add: List.map_filter_simps)
    qed
  next
    case False
    then show ?thesis
      by (subst col_loop.simps) (simp add: List.map_filter_simps)
  qed
qed

lemma row_loop_eq:
  "row_loop env dir names cw cols rows r
     = map (\<lambda>r'. col_loop env dir names cw cols rows r' 0) [r..<rows]"
proof (induction env dir names cw cols rows r rule: row_loop.induct)
  case (1 env dir names cw cols rows r)
  show ?case
  proof (cases "r < rows")
    case True
    then have "[r..<rows] = r # [r + 1..<rows]"
      by (simp add: upt_conv_Cons)
    with True 1 show ?thesis
      by (subst row_loop.simps) simp
  next
    case False
    then show ?thesis
      by (subst row_loop.simps) simp
  qed
qed

lemma maxLen_loop_fold: "maxLen_loop names m = fold max (map length names) m"
  by (induction names arbitrary: m) (simp_all add: max_def)

lemma maxLen_loop_eq: "maxLen_loop names m = Max (insert m (length ` set names))"
proof -
  have "Max (set (m # map length names)) = fold max (map length names) m"
    by (rule Max.set_eq_fold)
  then show ?thesis
    by (simp add: maxLen_loop_fold)
qed

lemma maxLen_loop_pos:
  assumes "names \<noteq> []" and "[] \<notin> set names"
  shows "0 < maxLen_loop names 0"
proof -
  from assms obtain n where n: "n \<in> set names" "0 < length n"
    by (cases names) auto
  then have "length n \<le> Max (insert 0 (length ` set names))"
    by (intro Max_ge) auto
  with n(2) have "0 < Max (insert 0 (length ` set names))"
    by linarith
  then show ?thesis
    by (simp only: maxLen_loop_eq)
qed

lemma maxLen_loop_Max: "names \<noteq> [] \<Longrightarrow> maxLen_loop names 0 = Max (length ` set names)"
  by (simp add: maxLen_loop_eq)

lemma grid_cols_pos: "1 \<le> grid_cols names width"
  by (simp add: grid_cols_def Let_def)

lemma grid_cols_floor:
  "int (grid_cols names width) = max 1 \<lfloor>real width / real (grid_colWidth names)\<rfloor>"
  by (simp add: grid_cols_def Let_def floor_divide_of_nat_eq max_def)

lemma ceil_div_nat:
  assumes "0 < (k::nat)"
  shows "int ((n + k - 1) div k) = \<lceil>real n / real k\<rceil>"
proof -
  define q where "q = (n + k - 1) div k"
  have "q * k \<le> n + k - 1"
    by (simp add: q_def)
  with assms have up: "q * k < n + k"
    by linarith
  have "n + k - 1 < k + q * k"
    unfolding q_def using assms by (rule dividend_less_div_times)
  with assms have lo: "n \<le> q * k"
    by linarith
  have "real n \<le> real q * real k"
    using lo by (metis of_nat_le_iff of_nat_mult)
  then have a: "real n / real k \<le> real q"
    using assms by (simp add: pos_divide_le_eq)
  have "real q * real k < real n + real k"
    using up by (metis of_nat_less_iff of_nat_mult of_nat_add)
  then have "(real q - 1) * real k < real n"
    by (simp add: algebra_simps)
  then have b: "real q - 1 < real n / real k"
    using assms by (simp add: pos_less_divide_eq)
  have "\<lceil>real n / real k\<rceil> = int q"
    using a b by (intro ceiling_unique) simp_all
  then show ?thesis
    by (simp add: q_def)
qed

lemma ceil_div_covers:
  assumes "0 < (k::nat)"
  shows "n \<le> (n + k - 1) div k * k"
proof -
  have "n + k - 1 < k + (n + k - 1) div k * k"
    using assms by (rule dividend_less_div_times)
  with assms show ?thesis
    by linarith
qed

lemma grid_rows_ceiling:
  "int (grid_rows names width) = \<lceil>real (length names) / real (grid_cols names width)\<rceil>"
  unfolding grid_rows_def using grid_cols_pos [of names width] by (intro ceil_div_nat) simp

section \<open>Lists read by rows and by columns\<close>

lemma filter_upt_downward:
  assumes "\<And>i j. i \<le> j \<Longrightarrow> P j \<Longrightarrow> P i"
  shows "filter P [0..<m] = [0..<length (filter P [0..<m])]"
proof (induction m)
  case 0
  show ?case by simp
next
  case (Suc m)
  show ?case
  proof (cases "P m")
    case True
    have "P i" if "i < m" for i
      using assms [of i m] that True by simp
    then have "filter P [0..<m] = [0..<m]"
      by simp
    with True show ?thesis by simp
  next
    case False
    with Suc show ?thesis by simp
  qed
qed

lemma filter_upt_length_iff:
  assumes "\<And>i j. i \<le> j \<Longrightarrow> P j \<Longrightarrow> P i"
  shows "j < length (filter P [0..<m]) \<longleftrightarrow> j < m \<and> P j"
proof -
  have "j < length (filter P [0..<m]) \<longleftrightarrow> j \<in> set [0..<length (filter P [0..<m])]"
    by simp
  also have "\<dots> \<longleftrightarrow> j \<in> set (filter P [0..<m])"
    using filter_upt_downward [of P m, OF assms] by (simp only:)
  also have "\<dots> \<longleftrightarrow> j < m \<and> P j"
    by simp
  finally show ?thesis .
qed

lemma map_nth_offset:
  "k + m \<le> length xs \<Longrightarrow> map (\<lambda>i. xs ! (k + i)) [0..<m] = take m (drop k xs)"
  by (rule nth_equalityI) simp_all

lemma concat_chunks: "concat (map (\<lambda>j. take k (drop (j * k) xs)) [0..<m]) = take (m * k) xs"
proof (induction m)
  case 0
  show ?case by simp
next
  case (Suc m)
  have "Suc m * k = m * k + k"
    by simp
  then have "take (Suc m * k) xs = take (m * k) xs @ take k (drop (m * k) xs)"
    by (simp only: take_add)
  with Suc show ?case by simp
qed

lemma length_le_foldr_max:
  "x \<in> set xss \<Longrightarrow> length x \<le> foldr (\<lambda>xs. max (length xs)) xss 0"
  by (induction xss) auto

lemma foldr_max_witness:
  "j < foldr (\<lambda>xs. max (length xs)) xss 0 \<Longrightarrow> \<exists>x \<in> set xss. j < length x"
  by (induction xss) (auto simp: max_def split: if_splits)

lemma mset_heads_tails:
  "mset (concat xss)
     = mset (concat (map (case_list [] (\<lambda>h t. [h])) xss))
       + mset (concat (concat (map (case_list [] (\<lambda>h t. [t])) xss)))"
proof (induction xss)
  case Nil
  show ?case by simp
next
  case (Cons xs xss)
  then show ?case by (cases xs) simp_all
qed

lemma mset_concat_transpose: "mset (concat (transpose xss)) = mset (concat xss)"
proof (induction xss rule: transpose.induct)
  case 1
  show ?case by simp
next
  case (2 xss)
  then show ?case by simp
next
  case (3 x xs xss)
  have "mset (concat (transpose ((x # xs) # xss)))
          = {#x#} + mset (concat (map (case_list [] (\<lambda>h t. [h])) xss))
            + mset (concat (transpose (xs # concat (map (case_list [] (\<lambda>h t. [t])) xss))))"
    by simp
  also have "\<dots> = {#x#} + mset (concat (map (case_list [] (\<lambda>h t. [h])) xss))
            + (mset xs + mset (concat (concat (map (case_list [] (\<lambda>h t. [t])) xss))))"
    by (simp only: 3) simp
  also have "\<dots> = {#x#} + mset xs + mset (concat xss)"
    by (simp only: mset_heads_tails [of xss] ac_simps)
  finally show ?case by simp
qed

lemma column_major_transpose:
  fixes xs :: "'a list"
  assumes rows: "0 < rows" and fit: "length xs \<le> rows * cols"
  shows "concat (transpose (map (\<lambda>r. map (\<lambda>c. xs ! (c * rows + r))
            (filter (\<lambda>c. c * rows + r < length xs) [0..<cols])) [0..<rows])) = xs"
proof -
  define n where "n = length xs"
  define k where "k r = length (filter (\<lambda>c. c * rows + r < n) [0..<cols])" for r
  define row where "row r = map (\<lambda>c. xs ! (c * rows + r)) (filter (\<lambda>c. c * rows + r < n) [0..<cols])" for r
  define G where "G = map row [0..<rows]"
  have down_c: "i * rows + r < n" if "i \<le> j" "j * rows + r < n" for i j r
  proof -
    from that(1) have "i * rows \<le> j * rows" by simp
    with that(2) show ?thesis by linarith
  qed
  have row_eq: "row r = map (\<lambda>c. xs ! (c * rows + r)) [0..<k r]" for r
    unfolding row_def k_def
    using filter_upt_downward [of "\<lambda>c. c * rows + r < n" cols] down_c by simp
  have k_iff: "j < k r \<longleftrightarrow> j < cols \<and> j * rows + r < n" for j r
    unfolding k_def
    using filter_upt_length_iff [of "\<lambda>c. c * rows + r < n" j cols] down_c by simp
  have len_row: "length (row r) = k r" for r
    by (simp add: row_eq)
  have nth_row: "row r ! j = xs ! (j * rows + r)" if "j < k r" for j r
    using that by (simp add: row_eq)
  define J where "J = length (transpose G)"
  have col: "transpose G ! j = take rows (drop (j * rows) xs)" if j: "j < J" for j
  proof -
    from j have "j < foldr (\<lambda>xs. max (length xs)) G 0"
      by (simp add: J_def length_transpose)
    then obtain r0 where r0: "r0 < rows" "j < k r0"
      using foldr_max_witness [of j G] by (auto simp: G_def len_row)
    then have jc: "j < cols" and jn: "j * rows < n"
      using k_iff [of j r0] by simp_all
    define m where "m = length (filter (\<lambda>r. j * rows + r < n) [0..<rows])"
    have f: "filter (\<lambda>r. j * rows + r < n) [0..<rows] = [0..<m]"
      unfolding m_def by (rule filter_upt_downward) simp
    have m_iff: "r < m \<longleftrightarrow> r < rows \<and> j * rows + r < n" for r
      unfolding m_def by (rule filter_upt_length_iff) simp
    have "transpose G ! j = map (\<lambda>ys. ys ! j) (filter (\<lambda>ys. j < length ys) G)"
      using j unfolding J_def by (rule nth_transpose)
    also have "\<dots> = map (\<lambda>r. row r ! j) (filter (\<lambda>r. j < length (row r)) [0..<rows])"
      by (simp add: G_def filter_map comp_def)
    also have "filter (\<lambda>r. j < length (row r)) [0..<rows]
                 = filter (\<lambda>r. j * rows + r < n) [0..<rows]"
      by (rule filter_cong) (simp_all add: len_row k_iff jc)
    also have "map (\<lambda>r. row r ! j) (filter (\<lambda>r. j * rows + r < n) [0..<rows])
                 = map (\<lambda>r. xs ! (j * rows + r)) (filter (\<lambda>r. j * rows + r < n) [0..<rows])"
      by (rule map_cong) (simp_all add: nth_row k_iff jc)
    also have "\<dots> = map (\<lambda>r. xs ! (j * rows + r)) [0..<m]"
      by (simp only: f)
    also have "\<dots> = take m (drop (j * rows) xs)"
    proof (rule map_nth_offset)
      show "j * rows + m \<le> length xs"
      proof (cases m)
        case 0
        with jn show ?thesis by (simp add: n_def)
      next
        case (Suc m')
        then have "m' < m" by simp
        then have "j * rows + m' < n" using m_iff by blast
        with Suc show ?thesis by (simp add: n_def)
      qed
    qed
    also have "\<dots> = take rows (drop (j * rows) xs)"
    proof (cases "m < rows")
      case True
      then have "\<not> j * rows + m < n"
        using m_iff [of m] by simp
      then have "length (drop (j * rows) xs) \<le> m"
        by (simp add: n_def)
      with True show ?thesis by simp
    next
      case False
      moreover have "m \<le> rows"
        unfolding m_def by (metis length_filter_le length_upt diff_zero)
      ultimately show ?thesis by simp
    qed
    finally show ?thesis .
  qed
  have "transpose G = map (\<lambda>j. take rows (drop (j * rows) xs)) [0..<J]"
    by (rule nth_equalityI) (simp_all add: J_def [symmetric] col)
  then have "concat (transpose G) = take (J * rows) xs"
    by (simp only: concat_chunks)
  moreover have "n \<le> J * rows"
  proof -
    have "row 0 \<in> set G"
      using rows by (simp add: G_def)
    then have "k 0 \<le> J"
      using length_le_foldr_max [of "row 0" G] by (simp add: J_def length_transpose len_row)
    have "\<not> k 0 < k 0" by simp
    then have "cols \<le> k 0 \<or> n \<le> k 0 * rows"
      using k_iff [of "k 0" 0] by auto
    then have "n \<le> k 0 * rows"
    proof
      assume "cols \<le> k 0"
      then have "cols * rows \<le> k 0 * rows"
        by (rule mult_le_mono1)
      moreover have "rows * cols = cols * rows"
        by (rule mult.commute)
      ultimately show ?thesis
        using fit unfolding n_def by linarith
    qed
    also have "\<dots> \<le> J * rows"
      using \<open>k 0 \<le> J\<close> by simp
    finally show ?thesis .
  qed
  ultimately have "concat (transpose G) = xs"
    by (simp add: n_def)
  then show ?thesis
    by (simp add: G_def row_def [abs_def] n_def)
qed

section \<open>Grid mode: properties\<close>

lemma grid_rows_cover: "length names \<le> grid_rows names width * grid_cols names width"
  unfolding grid_rows_def using grid_cols_pos [of names width] by (intro ceil_div_covers) simp

lemma grid_rows_pos: "names \<noteq> [] \<Longrightarrow> 0 < grid_rows names width"
  using grid_rows_cover [of names width] by (cases "grid_rows names width") auto

lemma grid_cell_None:
  "length names \<le> c * rows + r \<Longrightarrow> grid_cell env dir names cw cols rows r c = None"
  by (simp add: grid_cell_def)

lemma grid_cell_Some:
  "c * rows + r < length names \<Longrightarrow>
   \<exists>ws. grid_cell env dir names cw cols rows r c
     = Some \<lparr>cell_name = names ! (c * rows + r),
             cell_writes = colorName env (names ! (c * rows + r))
                             (Join env dir (names ! (c * rows + r)))
                             (Stat_info env (Join env dir (names ! (c * rows + r)))) # ws\<rparr>"
  by (simp add: grid_cell_def Let_def)

lemma grid_cell_name:
  "c * rows + r < length names \<Longrightarrow>
   cell_name (the (grid_cell env dir names cw cols rows r c)) = names ! (c * rows + r)"
  using grid_cell_Some [of c rows r names env dir cw cols] by auto

lemma grid_cell_None_iff:
  "grid_cell env dir names cw cols rows r c = None \<longleftrightarrow> length names \<le> c * rows + r"
  using grid_cell_Some [of c rows r names env dir cw cols] grid_cell_None [of names c rows r env dir cw cols]
  by (cases "c * rows + r < length names") auto

lemma map_filter_grid_cell:
  "List.map_filter (grid_cell env dir names cw cols rows r) [0..<cols]
     = map (\<lambda>c. the (grid_cell env dir names cw cols rows r c))
         (filter (\<lambda>c. c * rows + r < length names) [0..<cols])"
  by (simp add: List.map_filter_def grid_cell_None_iff not_le comp_def)

lemma grid_eq:
  "grid env dir names width =
     (if maxLen_loop names 0 = 0 then []
      else map (\<lambda>r. map (\<lambda>c. the (grid_cell env dir names (grid_colWidth names)
                          (grid_cols names width) (grid_rows names width) r c))
                    (filter (\<lambda>c. c * grid_rows names width + r < length names)
                       [0..<grid_cols names width]))
             [0..<grid_rows names width])"
  by (simp add: grid_def row_loop_eq col_loop_eq map_filter_grid_cell)

lemma grid_names:
  "map (map cell_name) (grid env dir names width) =
     (if maxLen_loop names 0 = 0 then []
      else map (\<lambda>r. map (\<lambda>c. names ! (c * grid_rows names width + r))
                    (filter (\<lambda>c. c * grid_rows names width + r < length names)
                       [0..<grid_cols names width]))
             [0..<grid_rows names width])"
  by (simp add: grid_eq grid_cell_name comp_def cong: map_cong)

text \<open>
  Claim C3.  For a non-empty list of names, none of them empty (a file name has at least
  one byte), and a positive width: the column width is the greatest name length plus 2;
  the number of columns is the greater of 1 and the floor of width by column width; the
  number of rows is the ceiling of the number of names by the number of columns; row
  \<open>r\<close> of the grid consists of the cells of the columns \<open>c\<close> with
  \<open>c * rows + r\<close> below the number of names, in the order of the columns, and such a
  cell holds the name of that index and writes its decorated name first; a position with
  \<open>c * rows + r\<close> not below the number of names yields no cell, so nothing is written
  for it.  The writes of the grid are those of its cells, row by row, each row followed by
  a newline.  On the empty list of names neither mode writes anything.
\<close>

theorem grid_layout:
  assumes "names \<noteq> []" and "[] \<notin> set names" and "0 < width"
    and "cw = grid_colWidth names"
    and "cols = grid_cols names width"
    and "rows = grid_rows names width"
  shows "cw = Max (length ` set names) + 2
       \<and> int cols = max 1 \<lfloor>real width / real cw\<rfloor>
       \<and> int rows = \<lceil>real (length names) / real cols\<rceil>
       \<and> grid env dir names width
           = map (\<lambda>r. map (\<lambda>c. the (grid_cell env dir names cw cols rows r c))
                        (filter (\<lambda>c. c * rows + r < length names) [0..<cols]))
               [0..<rows]
       \<and> (c * rows + r < length names \<longrightarrow>
            (\<exists>ws. grid_cell env dir names cw cols rows r c
               = Some \<lparr>cell_name = names ! (c * rows + r),
                       cell_writes = colorName env (names ! (c * rows + r))
                                       (Join env dir (names ! (c * rows + r)))
                                       (Stat_info env (Join env dir (names ! (c * rows + r))))
                                     # ws\<rparr>))
       \<and> (length names \<le> c * rows + r \<longrightarrow> grid_cell env dir names cw cols rows r c = None)
       \<and> grid_writes (grid env dir names width)
           = concat (map (\<lambda>r. concat (map (\<lambda>c. cell_writes (the (grid_cell env dir names cw cols rows r c)))
                                    (filter (\<lambda>c. c * rows + r < length names) [0..<cols]))
                               @ [newline])
                       [0..<rows])
       \<and> grid_writes (grid env dir [] width) = []
       \<and> long_loop env dir [] ([], []) = ([], [])"
proof -
  have m: "maxLen_loop names 0 \<noteq> 0"
    using maxLen_loop_pos [OF assms(1,2)] by simp
  have 1: "cw = Max (length ` set names) + 2"
    using assms(1,4) by (simp add: grid_colWidth_def maxLen_loop_Max)
  have 2: "int cols = max 1 \<lfloor>real width / real cw\<rfloor>"
    unfolding assms(4,5) by (rule grid_cols_floor)
  have 3: "int rows = \<lceil>real (length names) / real cols\<rceil>"
    unfolding assms(5,6) by (rule grid_rows_ceiling)
  have 4: "grid env dir names width
           = map (\<lambda>r. map (\<lambda>c. the (grid_cell env dir names cw cols rows r c))
                        (filter (\<lambda>c. c * rows + r < length names) [0..<cols]))
               [0..<rows]"
    unfolding assms(4,5,6) using m by (simp add: grid_eq)
  have 5: "grid_writes (grid env dir names width)
           = concat (map (\<lambda>r. concat (map (\<lambda>c. cell_writes (the (grid_cell env dir names cw cols rows r c)))
                                    (filter (\<lambda>c. c * rows + r < length names) [0..<cols]))
                               @ [newline])
                       [0..<rows])"
    by (simp add: 4 grid_writes_def row_writes_def comp_def)
  have 6: "grid_writes (grid env dir [] width) = []"
    by (simp add: grid_def grid_writes_def)
  have 7: "long_loop env dir [] ([], []) = ([], [])"
    by simp
  from 1 2 3 4 5 6 7 grid_cell_Some [of c rows r names env dir cw cols]
    grid_cell_None [of names c rows r env dir cw cols]
  show ?thesis by blast
qed

theorem grid_layout_witness:
  "example_names \<noteq> [] \<and> [] \<notin> set example_names \<and> (0::nat) < 12
   \<and> (3::nat) = grid_colWidth example_names
   \<and> (4::nat) = grid_cols example_names 12
   \<and> (2::nat) = grid_rows example_names 12
   \<and> (3::nat) = Max (length ` set example_names) + 2
   \<and> int 4 = max 1 \<lfloor>real 12 / real 3\<rfloor>
   \<and> int 2 = \<lceil>real (length example_names) / real 4\<rceil>
   \<and> grid_cell example_env ''.'' example_names 3 4 2 1 2 = None
   \<and> map (map cell_name) (grid example_env ''.'' example_names 12)
       = [[''a'', ''c'', ''e''], [''b'', ''d'']]"
proof -
  have h1: "example_names \<noteq> []" and h2: "[] \<notin> set example_names"
    by (simp_all add: example_names_def)
  have h3: "(0::nat) < 12"
    by simp
  have h4: "(3::nat) = grid_colWidth example_names"
    by (simp add: grid_colWidth_def example_names_def)
  have h5: "(4::nat) = grid_cols example_names 12"
    by (simp add: grid_cols_def grid_colWidth_def example_names_def)
  have h6: "(2::nat) = grid_rows example_names 12"
    unfolding grid_rows_def h5 [symmetric] by (simp add: example_names_def)
  have l: "length example_names \<le> 2 * 2 + 1"
    by (simp add: example_names_def)
  have c: "cell_name (the (grid_cell example_env ''.'' example_names 3 4 2 r c))
             = example_names ! (c * 2 + r)" if "c * 2 + r < length example_names" for r c
    using that by (rule grid_cell_name)
  have u: "[0..<4] = [0, 1, 2, 3]" "[0..<2] = [0, 1]"
    by (simp_all add: upt_rec)
  note g = grid_layout [where c = 2 and r = 1 and env = example_env and dir = "''.''",
      OF h1 h2 h3 h4 h5 h6]
  from g have "map (map cell_name) (grid example_env ''.'' example_names 12)
       = [[''a'', ''c'', ''e''], [''b'', ''d'']]"
    by (simp add: u c) (simp add: example_names_def)
  with g h1 h2 h3 h4 h5 h6 l show ?thesis
    by blast
qed

text \<open>
  Claim C4.  For a non-empty list of names, none of them empty, and every width: there is
  at least one column; every index of the list is the index \<open>c * rows + r\<close> of exactly
  one position \<open>(r, c)\<close> of the grid; the names of the printed cells are the given
  names, each as often as it is given; and reading the printed rows column by column
  (the transposition of the rows, concatenated) gives back the list in its order.
\<close>

theorem grid_arrangement:
  assumes "names \<noteq> []" and "[] \<notin> set names"
    and "cols = grid_cols names width"
    and "rows = grid_rows names width"
  shows "1 \<le> cols
       \<and> (\<forall>i < length names. \<exists>!p. fst p < rows \<and> snd p < cols \<and> snd p * rows + fst p = i)
       \<and> mset (map cell_name (concat (grid env dir names width))) = mset names
       \<and> concat (transpose (map (map cell_name) (grid env dir names width))) = names"
proof -
  have m: "maxLen_loop names 0 \<noteq> 0"
    using maxLen_loop_pos [OF assms(1,2)] by simp
  have cols: "1 \<le> cols"
    unfolding assms(3) by (rule grid_cols_pos)
  have rows: "0 < rows"
    unfolding assms(4) using assms(1) by (rule grid_rows_pos)
  have fit: "length names \<le> rows * cols"
    unfolding assms(3,4) by (rule grid_rows_cover)
  have cellpos: "\<exists>!p. fst p < rows \<and> snd p < cols \<and> snd p * rows + fst p = i"
    if i: "i < length names" for i
  proof (rule ex1I [of _ "(i mod rows, i div rows)"])
    have "i < rows * cols"
      using i fit by simp
    then have "i div rows < cols"
      using rows by (simp add: less_mult_imp_div_less mult.commute)
    then show "fst (i mod rows, i div rows) < rows \<and> snd (i mod rows, i div rows) < cols
        \<and> snd (i mod rows, i div rows) * rows + fst (i mod rows, i div rows) = i"
      using rows by simp
  next
    fix p :: "nat \<times> nat"
    assume p: "fst p < rows \<and> snd p < cols \<and> snd p * rows + fst p = i"
    then have "i div rows = snd p" "i mod rows = fst p"
      using rows by auto
    then show "p = (i mod rows, i div rows)"
      by (simp add: prod_eq_iff)
  qed
  have names: "map (map cell_name) (grid env dir names width)
      = map (\<lambda>r. map (\<lambda>c. names ! (c * rows + r))
                   (filter (\<lambda>c. c * rows + r < length names) [0..<cols])) [0..<rows]"
    unfolding assms(3,4) using m by (simp add: grid_names)
  have tr: "concat (transpose (map (map cell_name) (grid env dir names width))) = names"
    unfolding names using rows fit by (rule column_major_transpose)
  have "mset (map cell_name (concat (grid env dir names width)))
          = mset (concat (map (map cell_name) (grid env dir names width)))"
    by (simp add: map_concat)
  also have "\<dots> = mset (concat (transpose (map (map cell_name) (grid env dir names width))))"
    by (simp only: mset_concat_transpose)
  also have "\<dots> = mset names"
    by (simp only: tr)
  finally have ms: "mset (map cell_name (concat (grid env dir names width))) = mset names" .
  from cols cellpos ms tr show ?thesis by blast
qed

theorem grid_arrangement_witness:
  "example_names \<noteq> [] \<and> [] \<notin> set example_names
   \<and> (4::nat) = grid_cols example_names 12
   \<and> (2::nat) = grid_rows example_names 12
   \<and> (1::nat) \<le> 4
   \<and> mset (map cell_name (concat (grid example_env ''.'' example_names 12)))
       = mset example_names
   \<and> concat (transpose (map (map cell_name) (grid example_env ''.'' example_names 12)))
       = example_names"
proof -
  have h1: "example_names \<noteq> []" and h2: "[] \<notin> set example_names"
    by (simp_all add: example_names_def)
  have h5: "(4::nat) = grid_cols example_names 12"
    by (simp add: grid_cols_def grid_colWidth_def example_names_def)
  have h6: "(2::nat) = grid_rows example_names 12"
    unfolding grid_rows_def h5 [symmetric] by (simp add: example_names_def)
  from grid_arrangement [where env = example_env and dir = "''.''", OF h1 h2 h5 h6]
    h1 h2 h5 h6
  show ?thesis by blast
qed

section \<open>Grid mode: a failing \<^verbatim>\<open>os.Stat\<close>\<close>

lemma colorName_Stat_update [simp]:
  "colorName (env\<lparr>Stat := f\<rparr>) name path fi = colorName env name path fi"
  by (cases fi) (simp_all add: colorName_def)

lemma colorName_nil: "colorName env name path None = name"
  by (simp add: colorName_def)

lemma Stat_info_failed:
  "Stat_info (env\<lparr>Stat := (Stat env)(p := Inl e)\<rparr>) path
     = (if path = p then None else Stat_info env path)"
  by (simp add: Stat_info_def)

lemma grid_cell_failed:
  "grid_cell (env\<lparr>Stat := (Stat env)(p := Inl e)\<rparr>) dir names cw cols rows r c
     = map_option (bare_at env dir p) (grid_cell env dir names cw cols rows r c)"
  by (simp add: grid_cell_def Let_def Stat_info_failed colorName_nil bare_at_def)

lemma grid_cell_failed_fun:
  "grid_cell (env\<lparr>Stat := (Stat env)(p := Inl e)\<rparr>) dir names cw cols rows r
     = (\<lambda>c. map_option (bare_at env dir p) (grid_cell env dir names cw cols rows r c))"
  by (rule ext) (rule grid_cell_failed)

lemma map_filter_map_option:
  "List.map_filter (\<lambda>x. map_option h (g x)) xs = map h (List.map_filter g xs)"
  by (induction xs) (auto simp: List.map_filter_simps split: option.splits)

lemma grid_failed:
  "grid (env\<lparr>Stat := (Stat env)(p := Inl e)\<rparr>) dir names width
     = map (map (bare_at env dir p)) (grid env dir names width)"
  by (simp add: grid_def row_loop_eq col_loop_eq grid_cell_failed_fun map_filter_map_option)

lemma grid_cell_bare:
  assumes "grid_cell env dir names cw cols rows r c = Some x"
    and "isl (Stat env (Join env dir (cell_name x)))"
  shows "hd (cell_writes x) = cell_name x"
proof -
  from assms(1) have i: "c * rows + r < length names"
    by (simp add: grid_cell_def Let_def split: if_splits)
  from grid_cell_Some [OF i, of env dir cw cols] assms(1)
  obtain ws where x: "x = \<lparr>cell_name = names ! (c * rows + r),
             cell_writes = colorName env (names ! (c * rows + r))
                             (Join env dir (names ! (c * rows + r)))
                             (Stat_info env (Join env dir (names ! (c * rows + r)))) # ws\<rparr>"
    by auto
  with assms(2) have "Stat_info env (Join env dir (names ! (c * rows + r))) = None"
    by (simp add: Stat_info_def split: sum.splits)
  with x show ?thesis
    by (simp add: colorName_nil)
qed

text \<open>
  Claim C10.  When the flags are accepted without \<^verbatim>\<open>-l\<close> and the directory is read,
  the run writes the grid to standard output and nothing to standard error, whatever
  \<^verbatim>\<open>os.Stat\<close> returns for the entries.  \<^verbatim>\<open>colorName\<close> without file information
  is the bare name, so a cell whose \<^verbatim>\<open>os.Stat\<close> fails writes its name undecorated.
  Making \<^verbatim>\<open>os.Stat\<close> fail on one path changes the grid in the cells of that path
  only, and there only the decoration: the cells, their order and their padding stay.
\<close>

theorem grid_mode_stat_failure:
  assumes "flag_Parse \<lparr>longFlag = False, allFlag = False\<rparr> (expandCombinedFlags args)
             = Inr (fs, rest)"
    and "\<not> longFlag fs"
    and "dir = (if length rest > 0 then rest ! 0 else ''.'')"
    and "ReadDir env dir = Inr entries"
    and "names = collect_names env dir (allFlag fs) entries"
  shows "main env args = Completed
           \<lparr>stdout = grid_writes (grid env dir names (terminal_width env)),
            stderr = [], exit_code = 0\<rparr>
       \<and> colorName env name path None = name
       \<and> (grid_cell env dir names cw cols rows r c = Some x
            \<and> isl (Stat env (Join env dir (cell_name x)))
          \<longrightarrow> hd (cell_writes x) = cell_name x)
       \<and> grid (env\<lparr>Stat := (Stat env)(p := Inl e)\<rparr>) dir names width
           = map (map (bare_at env dir p)) (grid env dir names width)"
proof -
  have "main env args = Completed
           \<lparr>stdout = grid_writes (grid env dir names (terminal_width env)),
            stderr = [], exit_code = 0\<rparr>"
    using assms by (simp add: main_eq Let_def)
  then show ?thesis
    using colorName_nil [of env name path] grid_cell_bare [of env dir names cw cols rows r c x]
      grid_failed [of env p e dir names width]
    by blast
qed

theorem grid_mode_stat_failure_witness:
  "flag_Parse \<lparr>longFlag = False, allFlag = False\<rparr> (expandCombinedFlags [])
     = Inr (\<lparr>longFlag = False, allFlag = False\<rparr>, [])
   \<and> ReadDir example_env ''.'' = Inr [''.secret'', ''A.EXE'', ''b.txt'', ''c.mp3'']
   \<and> collect_names example_env ''.'' False [''.secret'', ''A.EXE'', ''b.txt'', ''c.mp3'']
       = [''A.EXE'', ''b.txt'']
   \<and> grid_cell example_env ''.'' [''A.EXE'', ''b.txt''] 7 2 1 0 1
       = Some \<lparr>cell_name = ''b.txt'', cell_writes = [''b.txt'']\<rparr>
   \<and> isl (Stat example_env (Join example_env ''.'' ''b.txt''))
   \<and> main example_env [] = Completed
        \<lparr>stdout = [green ''A.EXE'', ''  '', ''b.txt'', newline], stderr = [], exit_code = 0\<rparr>"
proof -
  have p: "flag_Parse \<lparr>longFlag = False, allFlag = False\<rparr> (expandCombinedFlags [])
     = Inr (\<lparr>longFlag = False, allFlag = False\<rparr>, [])"
    by (simp add: expandCombinedFlags_eq)
  have r: "ReadDir example_env ''.'' = Inr [''.secret'', ''A.EXE'', ''b.txt'', ''c.mp3'']"
    by (simp add: example_env_def)
  have c: "collect_names example_env ''.'' False [''.secret'', ''A.EXE'', ''b.txt'', ''c.mp3'']
       = [''A.EXE'', ''b.txt'']"
    by (simp add: collect_names_def add_dots_def example_env_def HasPrefix_def isHidden_def
        UTF16PtrFromString_def FILE_ATTRIBUTE_HIDDEN_def)
  have s: "Stat example_env (Join example_env ''.'' ''b.txt'') = Inl (Error ''Access is denied.'')"
    "Stat example_env (Join example_env ''.'' ''A.EXE'') = Inr example_file"
    by (simp_all add: example_env_def)
  have w: "terminal_width example_env = 20"
    by (simp add: terminal_width_def example_env_def)
  have k: "grid_colWidth [''A.EXE'', ''b.txt''] = 7" "grid_cols [''A.EXE'', ''b.txt''] 20 = 2"
    by (simp_all add: grid_colWidth_def grid_cols_def)
  have k3: "grid_rows [''A.EXE'', ''b.txt''] 20 = 1"
    unfolding grid_rows_def k by simp
  have a: "colorName example_env ''A.EXE'' (Join example_env ''.'' ''A.EXE'') (Some example_file) = green ''A.EXE''"
    by (simp add: colorName_classify classify_def extension_def ToLower_def exts_defs
        example_file_def)
  have g0: "grid_cell example_env ''.'' [''A.EXE'', ''b.txt''] 7 2 1 0 0
       = Some \<lparr>cell_name = ''A.EXE'', cell_writes = [green ''A.EXE'', ''  '']\<rparr>"
    by (simp add: grid_cell_def Stat_info_def s a Let_def numeral_2_eq_2)
  have g1: "grid_cell example_env ''.'' [''A.EXE'', ''b.txt''] 7 2 1 0 1
       = Some \<lparr>cell_name = ''b.txt'', cell_writes = [''b.txt'']\<rparr>"
    by (simp add: grid_cell_def Stat_info_def s colorName_nil Let_def)
  have u: "[0..<2] = [0, 1]"
    by (simp add: upt_rec)
  have g: "grid_writes (grid example_env ''.'' [''A.EXE'', ''b.txt''] 20)
      = [green ''A.EXE'', ''  '', ''b.txt'', newline]"
    by (simp add: grid_eq k k3 u g0 [unfolded One_nat_def] g1 [unfolded One_nat_def]
        grid_writes_def row_writes_def)
  from grid_mode_stat_failure
      [where args = "[]" and fs = "\<lparr>longFlag = False, allFlag = False\<rparr>" and rest = "[]"
        and dir = "''.''" and env = example_env
        and entries = "[''.secret'', ''A.EXE'', ''b.txt'', ''c.mp3'']"
        and names = "[''A.EXE'', ''b.txt'']"]
    p r c s w g g1
  show ?thesis by simp
qed

end
